theory Spec2Isabelle
  imports Complex_Main "HOL-Library.Signed_Division"
begin

section \<open>Values shared by both sketches\<close>

text \<open>
  The repository holds two sketches of the datalogger: the TFT sketch
  (\<^verbatim>\<open>ESP32_Temperature_Datalogger.ino\<close>, one ring of multi-channel samples) and
  the LVGL sketch (\<^verbatim>\<open>ESP32_Temperature_Datalogger_Fixed.ino\<close>, one ring per
  channel). C \<^verbatim>\<open>int\<close> and \<^verbatim>\<open>time_t\<close> are modelled as \<open>int\<close>: every index and
  count below is shown to stay within \<open>0..1000\<close>, so no operation on them can
  overflow. A C \<^verbatim>\<open>float\<close> is modelled by the real number it denotes; the code
  modelled here only copies and compares temperatures. C's \<^verbatim>\<open>%\<close> truncates
  towards zero and is written \<open>smod\<close>.
\<close>

type_synonym float = real
type_synonym time_t = int

text \<open>\<^verbatim>\<open>#define DEVICE_DISCONNECTED_C -127\<close> of the DallasTemperature library.\<close>

definition DEVICE_DISCONNECTED_C :: float where
  "DEVICE_DISCONNECTED_C = - 127"

section \<open>The TFT sketch: sample ring\<close>

definition DATA_BUFFER_SIZE :: int where
  "DATA_BUFFER_SIZE = 1000"

record TempData =
  timestamp :: time_t
  temperatures :: "float list"

text \<open>The global variables of the sketch that the modelled functions read or write.\<close>

record globals =
  wifiEnabled :: bool
  bluetoothEnabled :: bool
  ssid :: string
  password :: string
  sensorCount :: int
  sensorNames :: "string list"
  sampleInterval :: int
  deepSleepEnabled :: bool
  lastTouchTime :: int
  dataBuffer :: "TempData list"
  dataBufferIndex :: int
  dataBufferCount :: int
  touchCalMinX :: int
  touchCalMinY :: int
  touchCalMaxX :: int
  touchCalMaxY :: int
  tableScrollOffset :: int
  maxTableScroll :: int
  settingsPage :: int
  selectedSensor :: int

text \<open>
  The three statements under \<^verbatim>\<open>// Add to circular buffer\<close> in \<^verbatim>\<open>readSensors\<close>.
\<close>

definition add_to_circular_buffer :: "TempData \<Rightarrow> globals \<Rightarrow> globals" where
  "add_to_circular_buffer newData g =
     (let g1 = g\<lparr>dataBuffer := (dataBuffer g)[nat (dataBufferIndex g) := newData]\<rparr>;
          g2 = g1\<lparr>dataBufferIndex := (dataBufferIndex g1 + 1) smod DATA_BUFFER_SIZE\<rparr>
      in if dataBufferCount g2 < DATA_BUFFER_SIZE
         then g2\<lparr>dataBufferCount := dataBufferCount g2 + 1\<rparr>
         else g2)"

text \<open>
  The slot read for logical position \<open>i\<close> counted back from the newest sample:
  \<^verbatim>\<open>(dataBufferIndex - i - 1 + DATA_BUFFER_SIZE) % DATA_BUFFER_SIZE\<close>, as in
  \<^verbatim>\<open>drawMainScreen\<close> (\<open>i = 0\<close>), \<^verbatim>\<open>drawChartScreen\<close> and \<^verbatim>\<open>drawTableScreen\<close>.
\<close>

definition slot_back :: "globals \<Rightarrow> int \<Rightarrow> nat" where
  "slot_back g i = nat ((dataBufferIndex g - i - 1 + DATA_BUFFER_SIZE) smod DATA_BUFFER_SIZE)"

text \<open>
  The samples in the order in which the loops
  \<^verbatim>\<open>for (int i = 0; i < dataBufferCount; i++)\<close> of the sketch visit them.
\<close>

definition visit_order :: "globals \<Rightarrow> TempData list" where
  "visit_order g = map (\<lambda>i. dataBuffer g ! slot_back g (int i)) [0..<nat (dataBufferCount g)]"

text \<open>
  The reading \<^verbatim>\<open>drawMainScreen\<close> shows for channel \<open>i\<close>: the newest slot, or
  \<open>0.0\<close> while the ring is empty.
\<close>

definition drawMainScreen_temp :: "globals \<Rightarrow> nat \<Rightarrow> float" where
  "drawMainScreen_temp g i =
     (if dataBufferCount g > 0
      then temperatures (dataBuffer g ! slot_back g 0) ! i
      else 0.0)"

text \<open>The bounds every index computation relies on.\<close>

definition ring_inv :: "globals \<Rightarrow> bool" where
  "ring_inv g \<longleftrightarrow>
     0 \<le> dataBufferIndex g \<and> dataBufferIndex g < DATA_BUFFER_SIZE \<and>
     0 \<le> dataBufferCount g \<and> dataBufferCount g \<le> DATA_BUFFER_SIZE \<and>
     int (length (dataBuffer g)) = DATA_BUFFER_SIZE"

section \<open>Library functions the sketches call\<close>

text \<open>
  The formatting and parsing routines of libc and of the Arduino core are not part of the
  repository. Those whose result is a matter of text layout only are modelled below; the
  time and floating-point conversions are parameters of the model, so every general
  theorem holds for whatever the platform's conversions are.
\<close>

record platform =
  strftime_localtime :: "string \<Rightarrow> time_t \<Rightarrow> string"
  sscanf_mktime :: "string \<Rightarrow> time_t"
  print_float :: "float \<Rightarrow> nat \<Rightarrow> string"
  String_float :: "float \<Rightarrow> nat \<Rightarrow> string"
  toFloat :: "string \<Rightarrow> float"

text \<open>
  \<^item> \<open>strftime_localtime fmt t\<close> is the text that
    \<^verbatim>\<open>strftime(buf, n, fmt, localtime(&t))\<close> leaves in \<^verbatim>\<open>buf\<close>;
  \<^item> \<open>sscanf_mktime s\<close> is the result of \<^verbatim>\<open>sscanf(s, "%d-%d-%d %d:%d:%d", ...)\<close>
    into a zeroed \<^verbatim>\<open>struct tm\<close>, the two adjustments of year and month, and
    \<^verbatim>\<open>mktime\<close>;
  \<^item> \<open>print_float x digits\<close> is the text \<^verbatim>\<open>Print::print(double, digits)\<close> writes, and
    \<open>print_float x 2\<close> that of \<^verbatim>\<open>Print::print(double)\<close>;
  \<^item> \<open>String_float x decimalPlaces\<close> is the text of \<^verbatim>\<open>String(float, decimalPlaces)\<close>;
  \<^item> \<open>toFloat s\<close> is \<^verbatim>\<open>String::toFloat()\<close>.
\<close>

text \<open>\<^verbatim>\<open>isspace\<close> in the C locale.\<close>

definition isspace_c :: "char \<Rightarrow> bool" where
  "isspace_c c \<longleftrightarrow> c \<in> {CHR '' '', CHR 0x09, CHR 0x0A, CHR 0x0B, CHR 0x0C, CHR 0x0D}"

text \<open>\<^verbatim>\<open>String::trim()\<close>: white space is removed at both ends.\<close>

definition trim :: "string \<Rightarrow> string" where
  "trim s = rev (dropWhile isspace_c (rev (dropWhile isspace_c s)))"

text \<open>
  \<^verbatim>\<open>String::indexOf(ch, fromIndex)\<close>: the first position of \<open>ch\<close> at or after
  \<open>fromIndex\<close>, or \<open>-1\<close>.
\<close>

definition indexOf :: "char \<Rightarrow> nat \<Rightarrow> string \<Rightarrow> int" where
  "indexOf ch fromIndex s =
     (let p = fromIndex + length (takeWhile (\<lambda>x. x \<noteq> ch) (drop fromIndex s))
      in if p < length s then int p else - 1)"

text \<open>
  \<^verbatim>\<open>String::substring(unsigned left, unsigned right)\<close>: the bounds are swapped when
  \<open>left > right\<close>, the result is empty when \<open>left\<close> is beyond the end, and \<open>right\<close> is
  cut at the length. An \<^verbatim>\<open>int\<close> argument arrives converted to \<^verbatim>\<open>unsigned int\<close>
  (\<open>to_unsigned\<close>), so \<open>-1\<close> arrives as \<open>4294967295\<close>.
\<close>

definition to_unsigned :: "int \<Rightarrow> nat" where
  "to_unsigned i = nat (i mod 2 ^ 32)"

definition substring :: "nat \<Rightarrow> nat \<Rightarrow> string \<Rightarrow> string" where
  "substring left right s =
     (let l = (if left > right then right else left);
          r = (if left > right then left else right)
      in if l \<ge> length s then []
         else take (min r (length s) - l) (drop l s))"

text \<open>
  \<^verbatim>\<open>Stream::readStringUntil(terminator)\<close> on a file: the characters up to the
  terminator or the end of the file; the terminator is consumed and not returned.
  The result is the string read and the rest of the file.
\<close>

definition readStringUntil :: "char \<Rightarrow> string \<Rightarrow> string \<times> string" where
  "readStringUntil terminator file =
     (takeWhile (\<lambda>x. x \<noteq> terminator) file, drop 1 (dropWhile (\<lambda>x. x \<noteq> terminator) file))"

text \<open>\<^verbatim>\<open>String(int)\<close>, \<^verbatim>\<open>Print::print(int)\<close> and \<^verbatim>\<open>printf("%d")\<close>: decimal digits.\<close>

fun String_nat :: "nat \<Rightarrow> string" where
  "String_nat n =
     (if n < 10 then [char_of (48 + n)]
      else String_nat (n div 10) @ [char_of (48 + n mod 10)])"

declare String_nat.simps [simp del]

definition String_int :: "int \<Rightarrow> string" where
  "String_int i = (if i < 0 then CHR ''-'' # String_nat (nat (- i)) else String_nat (nat i))"

text \<open>\<^verbatim>\<open>Print::println()\<close> writes a carriage return and a line feed.\<close>

definition println :: string where
  "println = [CHR 0x0D, CHR 0x0A]"

section \<open>The TFT sketch: persistence log\<close>

text \<open>
  The SPIFFS file system: whether it can be used, and the content of each of the two
  files the sketches keep there (\<open>None\<close> while the file does not exist).
\<close>

record spiffs =
  mounted :: bool
  temp_data_txt :: "string option"
  settings_json :: "string option"

text \<open>
  \<^verbatim>\<open>readSensors\<close>: \<open>now\<close> is what \<^verbatim>\<open>time()\<close> returns, \<open>getTempCByIndex\<close> what the
  sensor library returns for each index, and \<open>newData0\<close> the indeterminate content of the
  local \<^verbatim>\<open>TempData newData\<close> before it is filled.
\<close>

definition newData_of :: "int \<Rightarrow> time_t \<Rightarrow> (nat \<Rightarrow> float) \<Rightarrow> TempData \<Rightarrow> TempData" where
  "newData_of n now getTempCByIndex newData0 =
     newData0\<lparr>timestamp := now,
       temperatures := fold (\<lambda>i ts. ts[i := getTempCByIndex i]) [0..<nat (min n 10)]
                         (temperatures newData0)\<rparr>"

text \<open>
  \<^verbatim>\<open>saveData\<close>: one line for the newest slot of the ring, appended to the file; nothing
  is written when the file cannot be opened.
\<close>

definition saveData_line :: "platform \<Rightarrow> globals \<Rightarrow> string" where
  "saveData_line P g =
     (let d = dataBuffer g ! slot_back g 0
      in strftime_localtime P ''%Y-%m-%d %H:%M:%S'' (timestamp d) @ '','' @
         concat (map (\<lambda>i. print_float P (temperatures d ! i) 2 @
                       (if int i < sensorCount g - 1 then '','' else []))
                   [0..<nat (sensorCount g)]) @
         println)"

definition saveData :: "platform \<Rightarrow> globals \<Rightarrow> spiffs \<Rightarrow> spiffs" where
  "saveData P g fs =
     (if \<not> mounted fs then fs
      else fs\<lparr>temp_data_txt :=
                Some ((case temp_data_txt fs of None \<Rightarrow> [] | Some old \<Rightarrow> old) @ saveData_line P g)\<rparr>)"

definition readSensors ::
  "platform \<Rightarrow> time_t \<Rightarrow> (nat \<Rightarrow> float) \<Rightarrow> TempData \<Rightarrow> globals \<times> spiffs \<Rightarrow> globals \<times> spiffs" where
  "readSensors P now getTempCByIndex newData0 gf =
     (let g = add_to_circular_buffer (newData_of (sensorCount (fst gf)) now getTempCByIndex newData0) (fst gf)
      in (g, saveData P g (snd gf)))"

text \<open>
  The inner loop of \<^verbatim>\<open>loadData\<close>: one temperature per comma-separated field, at most
  ten.
\<close>

function load_temperatures :: "platform \<Rightarrow> string \<Rightarrow> int \<Rightarrow> int \<Rightarrow> float list \<Rightarrow> float list" where
  "load_temperatures P line start tempIndex temps =
     (if start < int (length line) \<and> tempIndex < 10 then
        let end0 = indexOf CHR '','' (nat start) line;
            end1 = (if end0 = - 1 then int (length line) else end0);
            tempStr = substring (nat start) (nat end1) line
        in load_temperatures P line (end1 + 1) (tempIndex + 1)
             (temps[nat tempIndex := toFloat P tempStr])
      else temps)"
  by pat_completeness auto
termination
  by (relation "measure (\<lambda>(P, line, start, tempIndex, temps). nat (10 - tempIndex))") auto

declare load_temperatures.simps [simp del]

text \<open>
  The body of the outer loop for one non-empty line; \<open>data0\<close> is the content of the
  storage of the local \<^verbatim>\<open>TempData data\<close> when the declaration is reached. The
  declaration has no initialiser, so the channels the line does not mention keep that
  content.
\<close>

definition parse_line :: "platform \<Rightarrow> TempData \<Rightarrow> string \<Rightarrow> TempData" where
  "parse_line P data0 line =
     (let commaIndex = indexOf CHR '','' 0 line;
          timeStr = substring 0 (to_unsigned commaIndex) line
      in data0\<lparr>timestamp := sscanf_mktime P timeStr,
               temperatures := load_temperatures P line (commaIndex + 1) 0 (temperatures data0)\<rparr>)"

lemma readStringUntil_shorter:
  assumes "file \<noteq> []"
  shows "length (snd (readStringUntil c file)) < length file"
proof -
  define xs where "xs = dropWhile (\<lambda>x. x \<noteq> c) file"
  have le: "length xs \<le> length file"
    unfolding xs_def by (rule length_dropWhile_le)
  have snd_eq: "snd (readStringUntil c file) = drop 1 xs"
    unfolding readStringUntil_def xs_def by simp
  show ?thesis
  proof (cases xs)
    case Nil
    then show ?thesis using assms snd_eq by simp
  next
    case (Cons a as)
    then show ?thesis using le snd_eq by simp
  qed
qed

text \<open>
  The outer loop. The local \<^verbatim>\<open>data\<close> of the loop body has the same storage in every
  iteration: \<open>data\<close> is its content at the start of an iteration, which is \<open>data0\<close>
  before the first line and what the previous record left afterwards.
\<close>

function loadData_loop :: "platform \<Rightarrow> TempData \<Rightarrow> string \<Rightarrow> globals \<Rightarrow> globals" where
  "loadData_loop P data file g =
     (if file \<noteq> [] \<and> dataBufferCount g < DATA_BUFFER_SIZE then
        let line = trim (fst (readStringUntil CHR 0x0A file));
            rest = snd (readStringUntil CHR 0x0A file)
        in if length line = 0 then loadData_loop P data rest g
           else loadData_loop P (parse_line P data line) rest
                  (g\<lparr>dataBuffer := (dataBuffer g)[nat (dataBufferIndex g) := parse_line P data line],
                     dataBufferIndex := (dataBufferIndex g + 1) smod DATA_BUFFER_SIZE,
                     dataBufferCount := dataBufferCount g + 1\<rparr>)
      else g)"
  by pat_completeness auto
termination
  by (relation "measure (\<lambda>(P, data, file, g). length file)")
     (auto simp: readStringUntil_shorter)

declare loadData_loop.simps [simp del]

definition loadData :: "platform \<Rightarrow> TempData \<Rightarrow> spiffs \<Rightarrow> globals \<Rightarrow> globals" where
  "loadData P data0 fs g =
     (if \<not> mounted fs then g
      else case temp_data_txt fs of
             None \<Rightarrow> g
           | Some file \<Rightarrow> loadData_loop P data0 file (g\<lparr>dataBufferCount := 0, dataBufferIndex := 0\<rparr>))"

section \<open>The TFT sketch: chart and table\<close>

text \<open>
  Both loops over the ring in \<^verbatim>\<open>drawChartScreen\<close> have the same shape: slot \<open>i\<close> is
  looked up counting back from the newest, and the body runs for the samples whose
  time stamp lies between \<open>startTime\<close> and \<open>now\<close>. \<open>chart_loop\<close> is that shape, with the
  body as an argument; \<open>window_visits\<close> runs it with a body that records the sample, and
  so lists the samples in the order in which the body meets them.
\<close>

definition chart_loop :: "time_t \<Rightarrow> time_t \<Rightarrow> globals \<Rightarrow> (TempData \<Rightarrow> 'a \<Rightarrow> 'a) \<Rightarrow> 'a \<Rightarrow> 'a" where
  "chart_loop startTime now g body acc0 =
     fold (\<lambda>i acc.
             let idx = slot_back g (int i)
             in if timestamp (dataBuffer g ! idx) \<ge> startTime \<and> timestamp (dataBuffer g ! idx) \<le> now
                then body (dataBuffer g ! idx) acc
                else acc)
       [0..<nat (dataBufferCount g)] acc0"

definition window_visits :: "time_t \<Rightarrow> time_t \<Rightarrow> globals \<Rightarrow> TempData list" where
  "window_visits startTime now g = chart_loop startTime now g (\<lambda>d acc. acc @ [d]) []"

text \<open>
  The body of the first loop: \<^verbatim>\<open>minTemp\<close>, \<^verbatim>\<open>maxTemp\<close> and \<^verbatim>\<open>dataPoints\<close> after one
  sample in the time range, for \<open>n\<close> sensors.
\<close>

definition minmax_sample :: "int \<Rightarrow> TempData \<Rightarrow> float \<times> float \<times> int \<Rightarrow> float \<times> float \<times> int" where
  "minmax_sample n d acc =
     (case acc of (minTemp, maxTemp, dataPoints) \<Rightarrow>
        (case fold (\<lambda>s (mn, mx).
                     if temperatures d ! s \<noteq> DEVICE_DISCONNECTED_C
                     then (if temperatures d ! s < mn then temperatures d ! s else mn,
                           if temperatures d ! s > mx then temperatures d ! s else mx)
                     else (mn, mx))
                [0..<nat n] (minTemp, maxTemp)
         of (mn, mx) \<Rightarrow> (mn, mx, dataPoints + 1)))"

definition chart_minmax :: "time_t \<Rightarrow> time_t \<Rightarrow> globals \<Rightarrow> float \<times> float \<times> int" where
  "chart_minmax startTime now g =
     chart_loop startTime now g (minmax_sample (sensorCount g)) (1000, - 1000, 0)"

text \<open>\<^verbatim>\<open>drawTableScreen\<close>: the samples of the ten rows, from the top row down.\<close>

definition table_rows :: "globals \<Rightarrow> TempData list" where
  "table_rows g =
     concat (map (\<lambda>row.
                    let dataIndex = tableScrollOffset g + int row
                    in if dataIndex < dataBufferCount g
                       then [dataBuffer g ! slot_back g dataIndex]
                       else [])
               [0..<10])"

text \<open>The texts drawn in the temperature columns of one row, at most six.\<close>

definition table_cells :: "platform \<Rightarrow> int \<Rightarrow> TempData \<Rightarrow> string list" where
  "table_cells P n d =
     map (\<lambda>i. if temperatures d ! i \<noteq> DEVICE_DISCONNECTED_C
               then String_float P (temperatures d ! i) 1
               else ''---'')
       [0..<nat (min n 6)]"

record table_screen =
  rows :: "(string \<times> string list) list"
  scroll_up :: bool
  scroll_down :: bool

definition drawTableScreen :: "platform \<Rightarrow> globals \<Rightarrow> globals \<times> table_screen" where
  "drawTableScreen P g =
     (let g1 = g\<lparr>maxTableScroll := max 0 (dataBufferCount g - 10)\<rparr>
      in (g1,
          \<lparr>rows = map (\<lambda>d. (strftime_localtime P ''%m/%d %H:%M'' (timestamp d),
                              table_cells P (sensorCount g1) d))
                     (table_rows g1),
           scroll_up = (tableScrollOffset g1 > 0),
           scroll_down = (tableScrollOffset g1 < maxTableScroll g1)\<rparr>))"

definition handleTableScroll :: "int \<Rightarrow> globals \<Rightarrow> globals" where
  "handleTableScroll direction g =
     (let g1 = g\<lparr>tableScrollOffset := tableScrollOffset g + direction\<rparr>;
          g2 = (if tableScrollOffset g1 < 0 then g1\<lparr>tableScrollOffset := 0\<rparr> else g1)
      in if tableScrollOffset g2 > maxTableScroll g2
         then g2\<lparr>tableScrollOffset := maxTableScroll g2\<rparr>
         else g2)"

section \<open>The TFT sketch: settings in the Preferences store\<close>









section \<open>The TFT sketch: the sensor task\<close>








section \<open>The LVGL sketch: one ring per channel\<close>

definition MAX_SENSORS :: int where
  "MAX_SENSORS = 10"

definition MAX_DATA_POINTS :: int where
  "MAX_DATA_POINTS = 1000"


text \<open>
  \<^verbatim>\<open>struct SensorData\<close> and the fields of \<^verbatim>\<open>struct TempData\<close> that hold the rings. The
  field \<^verbatim>\<open>timestamp\<close> is written \<open>sd_timestamp\<close> and the fields of the global
  \<^verbatim>\<open>tempData\<close> carry its name as a prefix, since the TFT sketch uses the same names.
\<close>

record SensorData =
  temperature :: float
  sd_timestamp :: time_t

record TempData_lvgl =
  tempData_sensorCount :: int
  tempData_data :: "SensorData list list"
  tempData_dataCount :: "int list"
  tempData_currentDataIndex :: "int list"
  tempData_dataOverflow :: "bool list"

text \<open>
  The body of the \<^verbatim>\<open>for\<close> loop of \<^verbatim>\<open>sensorTask\<close> for channel \<open>i\<close>, where \<open>temp\<close> is the
  reading \<^verbatim>\<open>getTempC\<close> returned and \<open>now\<close> the clock.
\<close>

definition store_reading :: "nat \<Rightarrow> float \<Rightarrow> time_t \<Rightarrow> TempData_lvgl \<Rightarrow> TempData_lvgl" where
  "store_reading i temp now td =
     (if temp \<noteq> DEVICE_DISCONNECTED_C then
        let index = tempData_currentDataIndex td ! i;
            td1 = td\<lparr>tempData_data :=
                       (tempData_data td)[i := (tempData_data td ! i)[nat index :=
                          (tempData_data td ! i ! nat index)\<lparr>temperature := temp, sd_timestamp := now\<rparr>]]\<rparr>;
            td2 = td1\<lparr>tempData_currentDataIndex :=
                        (tempData_currentDataIndex td1)[i := tempData_currentDataIndex td1 ! i + 1]\<rparr>;
            td3 = (if tempData_currentDataIndex td2 ! i \<ge> MAX_DATA_POINTS
                   then td2\<lparr>tempData_currentDataIndex := (tempData_currentDataIndex td2)[i := 0],
                            tempData_dataOverflow := (tempData_dataOverflow td2)[i := True]\<rparr>
                   else td2)
        in if tempData_dataCount td3 ! i < MAX_DATA_POINTS
           then td3\<lparr>tempData_dataCount := (tempData_dataCount td3)[i := tempData_dataCount td3 ! i + 1]\<rparr>
           else td3
      else td)"

text \<open>
  Whether the accesses of the loop body for channel \<open>i\<close> fall within the arrays as
  declared: \<^verbatim>\<open>addresses[i]\<close> is read in any case, and a reading that is stored goes to
  \<^verbatim>\<open>data[i][index]\<close>.
\<close>

definition within_arrays :: "nat \<Rightarrow> float \<Rightarrow> TempData_lvgl \<Rightarrow> bool" where
  "within_arrays i temp td \<longleftrightarrow>
     int i < MAX_SENSORS \<and>
     (if temp \<noteq> DEVICE_DISCONNECTED_C
      then 0 \<le> tempData_currentDataIndex td ! i \<and> tempData_currentDataIndex td ! i < MAX_DATA_POINTS
      else True)"

text \<open>
  One pass of the \<^verbatim>\<open>for\<close> loop over the channels, \<^verbatim>\<open>i < tempData.sensorCount\<close> being
  its only bound. The result is \<open>None\<close> when the loop indexes past an array, where C
  leaves the behaviour undefined.
\<close>

definition sensorTask_readings ::
  "(nat \<Rightarrow> float) \<Rightarrow> (nat \<Rightarrow> time_t) \<Rightarrow> TempData_lvgl \<Rightarrow> TempData_lvgl option" where
  "sensorTask_readings getTempC now td =
     fold (\<lambda>i r. case r of
                   None \<Rightarrow> None
                 | Some acc \<Rightarrow>
                     if within_arrays i (getTempC i) acc
                     then Some (store_reading i (getTempC i) (now i) acc)
                     else None)
       [0..<nat (tempData_sensorCount td)] (Some td)"


text \<open>The handler of the \<^verbatim>\<open>Clear Data\<close> button.\<close>

definition clear_data :: "TempData_lvgl \<Rightarrow> TempData_lvgl" where
  "clear_data td =
     fold (\<lambda>i acc. acc\<lparr>tempData_dataCount := (tempData_dataCount acc)[i := 0],
                        tempData_currentDataIndex := (tempData_currentDataIndex acc)[i := 0],
                        tempData_dataOverflow := (tempData_dataOverflow acc)[i := False]\<rparr>)
       [0..<nat MAX_SENSORS] td"

text \<open>
  The slot \<^verbatim>\<open>update_chart\<close> reads for point \<open>j\<close> of channel \<open>i\<close>:
  \<^verbatim>\<open>(currentDataIndex[i] - (dataCount[i] - j) + MAX_DATA_POINTS) % MAX_DATA_POINTS\<close>.
  The newest point is \<open>j = dataCount[i] - 1\<close>.
\<close>

definition update_chart_index :: "TempData_lvgl \<Rightarrow> nat \<Rightarrow> int \<Rightarrow> nat" where
  "update_chart_index td i j =
     nat ((tempData_currentDataIndex td ! i - (tempData_dataCount td ! i - j) + MAX_DATA_POINTS)
            smod MAX_DATA_POINTS)"

definition channel_inv :: "TempData_lvgl \<Rightarrow> nat \<Rightarrow> bool" where
  "channel_inv td i \<longleftrightarrow>
     0 \<le> tempData_currentDataIndex td ! i \<and> tempData_currentDataIndex td ! i < MAX_DATA_POINTS \<and>
     0 \<le> tempData_dataCount td ! i \<and> tempData_dataCount td ! i \<le> MAX_DATA_POINTS"

text \<open>The arrays have the sizes the declarations give them.\<close>

definition sized :: "TempData_lvgl \<Rightarrow> bool" where
  "sized td \<longleftrightarrow>
     int (length (tempData_data td)) = MAX_SENSORS \<and>
     list_all (\<lambda>ring. int (length ring) = MAX_DATA_POINTS) (tempData_data td) \<and>
     int (length (tempData_dataCount td)) = MAX_SENSORS \<and>
     int (length (tempData_currentDataIndex td)) = MAX_SENSORS \<and>
     int (length (tempData_dataOverflow td)) = MAX_SENSORS"

section \<open>The LVGL sketch: settings file and sensor task\<close>









section \<open>The state at power-up\<close>

text \<open>
  The globals of the TFT sketch as their initialisers give them; objects without one are
  zero. \<^verbatim>\<open>setup\<close> then calls \<^verbatim>\<open>loadSettings\<close>, and does not call \<^verbatim>\<open>loadData\<close>.
\<close>

definition initial_globals :: globals where
  "initial_globals =
     \<lparr>wifiEnabled = True, bluetoothEnabled = True, ssid = [], password = [],
      sensorCount = 0, sensorNames = replicate 10 [], sampleInterval = 60,
      deepSleepEnabled = True, lastTouchTime = 0,
      dataBuffer = replicate (nat DATA_BUFFER_SIZE) \<lparr>timestamp = 0, temperatures = replicate 10 0\<rparr>,
      dataBufferIndex = 0, dataBufferCount = 0,
      touchCalMinX = 380, touchCalMinY = 240, touchCalMaxX = 3800, touchCalMaxY = 3800,
      tableScrollOffset = 0, maxTableScroll = 0, settingsPage = 0, selectedSensor = 0\<rparr>"

definition initial_tempData :: TempData_lvgl where
  "initial_tempData =
     \<lparr>tempData_sensorCount = 0,
      tempData_data = replicate (nat MAX_SENSORS)
                        (replicate (nat MAX_DATA_POINTS) \<lparr>temperature = 0, sd_timestamp = 0\<rparr>),
      tempData_dataCount = replicate (nat MAX_SENSORS) 0,
      tempData_currentDataIndex = replicate (nat MAX_SENSORS) 0,
      tempData_dataOverflow = replicate (nat MAX_SENSORS) False\<rparr>"


section \<open>A reference platform\<close>

text \<open>
  Concrete conversions, used where a statement is evaluated on explicit data: the
  calendar in UTC (the sketch calls \<^verbatim>\<open>configTime(0, 0, ...)\<close>), \<^verbatim>\<open>%d\<close> scanning,
  and the conversions between floating-point numbers and text of the Arduino core.
\<close>

definition civil_from_days :: "int \<Rightarrow> int \<times> int \<times> int" where
  "civil_from_days z0 =
     (let z = z0 + 719468;
          era = z div 146097;
          doe = z - era * 146097;
          yoe = (doe - doe div 1460 + doe div 36524 - doe div 146096) div 365;
          doy = doe - (365 * yoe + yoe div 4 - yoe div 100);
          mp = (5 * doy + 2) div 153;
          d = doy - (153 * mp + 2) div 5 + 1;
          m = (if mp < 10 then mp + 3 else mp - 9);
          y = yoe + era * 400 + (if m \<le> 2 then 1 else 0)
      in (y, m, d))"

definition days_from_civil :: "int \<Rightarrow> int \<Rightarrow> int \<Rightarrow> int" where
  "days_from_civil y0 m d =
     (let y = (if m \<le> 2 then y0 - 1 else y0);
          era = y div 400;
          yoe = y - era * 400;
          doy = (153 * (if m > 2 then m - 3 else m + 9) + 2) div 5 + d - 1;
          doe = yoe * 365 + yoe div 4 - yoe div 100 + doy
      in era * 146097 + doe - 719468)"

definition pad2 :: "int \<Rightarrow> string" where
  "pad2 n = (if 0 \<le> n \<and> n < 10 then ''0'' else []) @ String_int n"

definition utc_strftime :: "string \<Rightarrow> time_t \<Rightarrow> string" where
  "utc_strftime fmt t =
     (case civil_from_days (t div 86400) of (y, m, d) \<Rightarrow>
        let secs = t mod 86400;
            hh = secs div 3600;
            mi = (secs mod 3600) div 60;
            ss = secs mod 60
        in if fmt = ''%Y-%m-%d %H:%M:%S''
           then String_int y @ ''-'' @ pad2 m @ ''-'' @ pad2 d @ '' '' @
                pad2 hh @ '':'' @ pad2 mi @ '':'' @ pad2 ss
           else if fmt = ''%m/%d %H:%M''
           then pad2 m @ ''/'' @ pad2 d @ '' '' @ pad2 hh @ '':'' @ pad2 mi
           else [])"

definition is_digit :: "char \<Rightarrow> bool" where
  "is_digit c \<longleftrightarrow> c \<in> set ''0123456789''"

definition decimal :: "string \<Rightarrow> nat" where
  "decimal ds = fold (\<lambda>c n. 10 * n + (of_char c - 48)) ds 0"

text \<open>\<^verbatim>\<open>%d\<close>: white space is skipped, then an optional sign and at least one digit.\<close>

definition scan_d :: "string \<Rightarrow> (int \<times> string) option" where
  "scan_d s =
     (let s1 = dropWhile isspace_c s;
          s2 = (if s1 \<noteq> [] \<and> (hd s1 = CHR ''-'' \<or> hd s1 = CHR ''+'') then tl s1 else s1);
          ds = takeWhile is_digit s2
      in if ds = [] then None
         else Some ((if s1 \<noteq> [] \<and> hd s1 = CHR ''-'' then - 1 else 1) * int (decimal ds),
                    dropWhile is_digit s2))"

text \<open>
  The values \<^verbatim>\<open>sscanf\<close> converts for a format of \<^verbatim>\<open>%d\<close>s with one separator
  character between two of them; conversion stops at the first mismatch.
\<close>

fun sscanf_fields :: "string \<Rightarrow> string \<Rightarrow> int list" where
  "sscanf_fields [] s = (case scan_d s of None \<Rightarrow> [] | Some (v, rest) \<Rightarrow> [v])"
| "sscanf_fields (c # cs) s =
     (case scan_d s of
        None \<Rightarrow> []
      | Some (v, rest) \<Rightarrow>
          v # (if c = CHR '' '' then sscanf_fields cs (dropWhile isspace_c rest)
               else if rest \<noteq> [] \<and> hd rest = c then sscanf_fields cs (tl rest)
               else []))"

definition utc_sscanf_mktime :: "string \<Rightarrow> time_t" where
  "utc_sscanf_mktime s =
     (let vs = sscanf_fields ''-- ::'' s;
          field = (\<lambda>k. if k < length vs then vs ! k else 0);
          tm_year = field 0 - 1900;
          tm_mon = field 1 - 1;
          y = tm_year + 1900 + tm_mon div 12;
          m = tm_mon mod 12 + 1
      in (days_from_civil y m 1 + (field 2 - 1)) * 86400 + field 3 * 3600 + field 4 * 60 + field 5)"

text \<open>
  Floating-point arithmetic. A \<^verbatim>\<open>double\<close> is modelled by the real number it denotes, and
  every operation of the code by the exact operation followed by rounding to the nearest
  number with a significand of 53 bits, ties to even (24 bits for \<^verbatim>\<open>float\<close>).
  Infinities, NaN and the sign of zero are not modelled. \<open>binade x\<close> is the exponent
  \<open>e\<close> with \<open>2 ^ e \<le> x < 2 ^ (e + 1)\<close>, found by repeated halving or doubling; the 1100
  steps allowed cover the range of \<^verbatim>\<open>double\<close>.
\<close>

fun halvings :: "nat \<Rightarrow> real \<Rightarrow> int" where
  "halvings 0 x = 0"
| "halvings (Suc n) x = (if x < 2 then 0 else 1 + halvings n (x / 2))"

fun doublings :: "nat \<Rightarrow> real \<Rightarrow> int" where
  "doublings 0 x = 0"
| "doublings (Suc n) x = (if 1 \<le> x then 0 else 1 + doublings n (x * 2))"

definition binade :: "real \<Rightarrow> int" where
  "binade x = (if 1 \<le> x then halvings 1100 x else - doublings 1100 x)"

definition pow2 :: "int \<Rightarrow> real" where
  "pow2 e = (if 0 \<le> e then 2 ^ nat e else 1 / 2 ^ nat (- e))"

definition round_even :: "real \<Rightarrow> int" where
  "round_even y =
     (let n = \<lfloor>y\<rfloor>; f = y - of_int n
      in if f > 1 / 2 \<or> (f = 1 / 2 \<and> odd n) then n + 1 else n)"

definition round_binary :: "nat \<Rightarrow> int \<Rightarrow> real \<Rightarrow> real" where
  "round_binary p emin x =
     (if x = 0 then 0
      else let ulp = pow2 (max (binade \<bar>x\<bar>) emin - int p + 1)
           in sgn x * of_int (round_even (\<bar>x\<bar> / ulp)) * ulp)"

definition to_double :: "real \<Rightarrow> real" where
  "to_double x = round_binary 53 (- 1022) x"

definition to_float :: "real \<Rightarrow> float" where
  "to_float x = round_binary 24 (- 126) x"

text \<open>
  \<^verbatim>\<open>Print::printFloat(double number, uint8_t digits)\<close> of the Arduino core, which
  \<^verbatim>\<open>Print::print(double, int)\<close> calls: the rounding term is 0.5 divided by ten once per
  digit, then the integer part is printed and the digits of the remainder are extracted
  one at a time.
\<close>

fun printFloat_rounding :: "nat \<Rightarrow> real" where
  "printFloat_rounding 0 = 1 / 2"
| "printFloat_rounding (Suc i) = to_double (printFloat_rounding i / 10)"

fun fraction_digits :: "real \<Rightarrow> nat \<Rightarrow> string" where
  "fraction_digits remainder 0 = []"
| "fraction_digits remainder (Suc digits) =
     (let remainder1 = to_double (remainder * 10);
          toPrint = \<lfloor>remainder1\<rfloor>
      in String_int toPrint @ fraction_digits (to_double (remainder1 - of_int toPrint)) digits)"

definition printFloat :: "float \<Rightarrow> nat \<Rightarrow> string" where
  "printFloat number digits =
     (if number > 4294967040 \<or> number < - 4294967040 then ''ovf''
      else
        let number1 = to_double (\<bar>number\<bar> + printFloat_rounding digits);
            int_part = \<lfloor>number1\<rfloor>;
            remainder = to_double (number1 - of_int int_part)
        in (if number < 0 then ''-'' else []) @ String_int int_part @
           (if digits > 0 then ''.'' else []) @
           fraction_digits remainder digits)"

text \<open>
  \<^verbatim>\<open>dtostrf(double number, signed int width, unsigned int prec, char *s)\<close> of the ESP32
  core, which \<^verbatim>\<open>String(float, decimalPlaces)\<close> calls with the width
  \<^verbatim>\<open>decimalPlaces + 2\<close>. The rounding term is the reciprocal of 2 multiplied by ten
  once per digit; the number is scaled below ten and all its digits are extracted one at
  a time. The loop that finds the scale runs at most 400 times here, which covers the
  range of \<^verbatim>\<open>double\<close>.
\<close>

fun dtostrf_rounding :: "nat \<Rightarrow> real" where
  "dtostrf_rounding 0 = 2"
| "dtostrf_rounding (Suc i) = to_double (dtostrf_rounding i * 10)"

fun dtostrf_scale :: "nat \<Rightarrow> real \<Rightarrow> real \<Rightarrow> nat \<Rightarrow> real \<times> nat" where
  "dtostrf_scale 0 number tenpow digitcount = (tenpow, digitcount)"
| "dtostrf_scale (Suc fuel) number tenpow digitcount =
     (if number \<ge> to_double (10 * tenpow)
      then dtostrf_scale fuel number (to_double (tenpow * 10)) (digitcount + 1)
      else (tenpow, digitcount))"

fun dtostrf_digits :: "nat \<Rightarrow> nat \<Rightarrow> real \<Rightarrow> string" where
  "dtostrf_digits 0 prec number = []"
| "dtostrf_digits (Suc digitcount) prec number =
     (let digit = (if \<lfloor>number\<rfloor> > 9 then 9 else \<lfloor>number\<rfloor>)
      in char_of (48 + digit) #
         (if digitcount = prec \<and> prec > 0 then ''.'' else []) @
         dtostrf_digits digitcount prec (to_double (to_double (number - of_int digit) * 10)))"

definition dtostrf :: "real \<Rightarrow> int \<Rightarrow> nat \<Rightarrow> string" where
  "dtostrf number0 width prec =
     (let negative = (number0 < 0);
          rounding = to_double (1 / dtostrf_rounding prec);
          number1 = to_double (\<bar>number0\<bar> + rounding);
          scale = dtostrf_scale 400 number1 1 1;
          number2 = to_double (number1 / fst scale);
          fillme = width - (if prec > 0 then int prec + 1 else 0) - (if negative then 1 else 0)
                     - int (snd scale)
      in replicate (nat fillme) CHR '' '' @
         (if negative then ''-'' else []) @
         dtostrf_digits (snd scale + prec) prec number2)"

definition String_of_float :: "float \<Rightarrow> nat \<Rightarrow> string" where
  "String_of_float x decimalPlaces = dtostrf x (int decimalPlaces + 2) decimalPlaces"

text \<open>
  \<^verbatim>\<open>String::toFloat\<close>, that is \<^verbatim>\<open>float(atof(buffer))\<close>: white space, an optional
  sign, decimal digits with an optional point, and an optional exponent; the value is
  rounded to \<^verbatim>\<open>double\<close> and then to \<^verbatim>\<open>float\<close>, and is 0 when no digit is found. The
  texts that \<^verbatim>\<open>strtod\<close> reads as hexadecimal, an infinity or NaN, and values beyond
  the range of \<^verbatim>\<open>double\<close>, are not modelled.
\<close>

definition pow10 :: "int \<Rightarrow> real" where
  "pow10 e = (if 0 \<le> e then 10 ^ nat e else 1 / 10 ^ nat (- e))"

definition atof_exponent :: "string \<Rightarrow> int" where
  "atof_exponent s =
     (if s \<noteq> [] \<and> (hd s = CHR ''e'' \<or> hd s = CHR ''E'') then
        let s1 = tl s;
            s2 = (if s1 \<noteq> [] \<and> (hd s1 = CHR ''-'' \<or> hd s1 = CHR ''+'') then tl s1 else s1);
            ds = takeWhile is_digit s2
        in (if s1 \<noteq> [] \<and> hd s1 = CHR ''-'' then - 1 else 1) * int (decimal ds)
      else 0)"

definition atof :: "string \<Rightarrow> float" where
  "atof s =
     (let s1 = dropWhile isspace_c s;
          s2 = (if s1 \<noteq> [] \<and> (hd s1 = CHR ''-'' \<or> hd s1 = CHR ''+'') then tl s1 else s1);
          ip = takeWhile is_digit s2;
          s3 = dropWhile is_digit s2;
          fp = (if s3 \<noteq> [] \<and> hd s3 = CHR ''.'' then takeWhile is_digit (tl s3) else []);
          s4 = (if s3 \<noteq> [] \<and> hd s3 = CHR ''.'' then dropWhile is_digit (tl s3) else s3)
      in if ip = [] \<and> fp = [] then 0
         else to_float (to_double
                ((if s1 \<noteq> [] \<and> hd s1 = CHR ''-'' then - 1 else 1) *
                 (of_nat (decimal ip) + of_nat (decimal fp) / 10 ^ length fp) *
                 pow10 (atof_exponent s4))))"

definition utc_platform :: platform where
  "utc_platform =
     \<lparr>strftime_localtime = utc_strftime, sscanf_mktime = utc_sscanf_mktime,
      print_float = printFloat, String_float = String_of_float, toFloat = atof\<rparr>"

section \<open>Runs of the two append operations\<close>

text \<open>
  Successive calls of \<^verbatim>\<open>readSensors\<close>, as the loop of \<^verbatim>\<open>sensorTask\<close> makes them. An
  input is the clock, the readings and the indeterminate local of one call;
  \<open>samples_of\<close> lists the samples the calls build.
\<close>

definition readSensors_run ::
  "platform \<Rightarrow> (time_t \<times> (nat \<Rightarrow> float) \<times> TempData) list \<Rightarrow> globals \<times> spiffs \<Rightarrow> globals \<times> spiffs" where
  "readSensors_run P inputs gf =
     fold (\<lambda>inp acc. readSensors P (fst inp) (fst (snd inp)) (snd (snd inp)) acc) inputs gf"

definition samples_of :: "int \<Rightarrow> (time_t \<times> (nat \<Rightarrow> float) \<times> TempData) list \<Rightarrow> TempData list" where
  "samples_of n inputs = map (\<lambda>inp. newData_of n (fst inp) (fst (snd inp)) (snd (snd inp))) inputs"

text \<open>
  Successive readings of channel \<open>i\<close> in the LVGL sketch, each a temperature and the clock;
  \<open>stored_readings\<close> keeps the readings that are stored.
\<close>

definition store_run :: "nat \<Rightarrow> (float \<times> time_t) list \<Rightarrow> TempData_lvgl \<Rightarrow> TempData_lvgl" where
  "store_run i rs td = fold (\<lambda>r acc. store_reading i (fst r) (snd r) acc) rs td"

definition stored_readings :: "(float \<times> time_t) list \<Rightarrow> (float \<times> time_t) list" where
  "stored_readings rs = filter (\<lambda>r. fst r \<noteq> DEVICE_DISCONNECTED_C) rs"

text \<open>Channel \<open>i\<close> after \<open>k\<close> readings have been stored in an empty ring.\<close>

definition channel_at :: "TempData_lvgl \<Rightarrow> nat \<Rightarrow> nat \<Rightarrow> bool" where
  "channel_at td i k \<longleftrightarrow>
     sized td \<and>
     tempData_currentDataIndex td ! i = int k mod MAX_DATA_POINTS \<and>
     tempData_dataCount td ! i = min (int k) MAX_DATA_POINTS \<and>
     tempData_dataOverflow td ! i = (int k \<ge> MAX_DATA_POINTS)"

section \<open>Concrete data for evaluation\<close>

text \<open>A zeroed sample, and a started file system that holds no file yet.\<close>

definition sample_zero :: TempData where
  "sample_zero = \<lparr>timestamp = 0, temperatures = replicate 10 0\<rparr>"

definition spiffs_empty :: spiffs where
  "spiffs_empty = \<lparr>mounted = True, temp_data_txt = None, settings_json = None\<rparr>"

definition rings_inv :: "TempData_lvgl \<Rightarrow> bool" where
  "rings_inv td \<longleftrightarrow> sized td \<and> list_all (channel_inv td) [0..<nat MAX_SENSORS]"

text \<open>The test both chart loops apply to the time stamp of a sample.\<close>

definition in_window :: "time_t \<Rightarrow> time_t \<Rightarrow> TempData \<Rightarrow> bool" where
  "in_window t0 t1 d \<longleftrightarrow> t0 \<le> timestamp d \<and> timestamp d \<le> t1"

text \<open>
  The readings of the first \<open>n\<close> channels of the samples \<open>ds\<close> that differ from the
  marker \<^verbatim>\<open>DEVICE_DISCONNECTED_C\<close>, in the order of the samples and channels.
\<close>

definition connected_readings :: "int \<Rightarrow> TempData list \<Rightarrow> float list" where
  "connected_readings n ds =
     concat (map (\<lambda>d. filter (\<lambda>t. t \<noteq> DEVICE_DISCONNECTED_C)
                          (map (\<lambda>s. temperatures d ! s) [0..<nat n])) ds)"

text \<open>Two read cycles of two channels, each with one channel disconnected.\<close>

definition sample_gap :: "(time_t \<times> (nat \<Rightarrow> float) \<times> TempData) list" where
  "sample_gap =
     [(1700000000, (\<lambda>i. if i = 0 then 21.5 else DEVICE_DISCONNECTED_C), sample_zero),
      (1700000060, (\<lambda>i. if i = 0 then DEVICE_DISCONNECTED_C else 19), sample_zero)]"









section \<open>Ring lemmas\<close>

lemma DATA_BUFFER_SIZE_pos: "0 < DATA_BUFFER_SIZE"
  by (simp add: DATA_BUFFER_SIZE_def)

lemma smod_nonneg: "0 \<le> a \<Longrightarrow> 0 < b \<Longrightarrow> (a::int) smod b = a mod b"
  by (simp add: signed_modulo_int_def sgn_if)

lemma ring_inv_add:
  assumes "ring_inv g"
  shows "ring_inv (add_to_circular_buffer x g)"
proof -
  have "0 \<le> dataBufferIndex g + 1" using assms by (simp add: ring_inv_def)
  then have "(dataBufferIndex g + 1) smod DATA_BUFFER_SIZE = (dataBufferIndex g + 1) mod DATA_BUFFER_SIZE"
    by (rule smod_nonneg) (rule DATA_BUFFER_SIZE_pos)
  moreover have "0 \<le> (dataBufferIndex g + 1) mod DATA_BUFFER_SIZE"
    and "(dataBufferIndex g + 1) mod DATA_BUFFER_SIZE < DATA_BUFFER_SIZE"
    using DATA_BUFFER_SIZE_pos by simp_all
  ultimately show ?thesis
    using assms by (simp add: ring_inv_def add_to_circular_buffer_def Let_def)
qed

lemma mod_step_back:
  fixes idx i C :: int
  assumes "0 < C"
  shows "((idx + 1) mod C - (i + 1) - 1 + C) mod C = (idx - i - 1 + C) mod C"
proof -
  have "((idx + 1) mod C - (i + 1) - 1 + C) mod C = ((idx + 1) mod C + (C - i - 2)) mod C"
    by (simp add: algebra_simps)
  also have "\<dots> = ((idx + 1) + (C - i - 2)) mod C"
    by (simp only: mod_add_left_eq)
  also have "\<dots> = (idx - i - 1 + C) mod C"
    by (simp add: algebra_simps)
  finally show ?thesis .
qed

lemma mod_step_zero:
  fixes idx C :: int
  assumes "0 \<le> idx" "idx < C"
  shows "((idx + 1) mod C - 0 - 1 + C) mod C = idx"
proof -
  have "((idx + 1) mod C - 0 - 1 + C) mod C = ((idx + 1) mod C + (C - 1)) mod C"
    by (simp add: algebra_simps)
  also have "\<dots> = ((idx + 1) + (C - 1)) mod C"
    by (simp only: mod_add_left_eq)
  also have "\<dots> = idx mod C" by simp
  also have "\<dots> = idx" using assms by simp
  finally show ?thesis .
qed

lemma mod_back_neq:
  fixes idx i C :: int
  assumes "0 \<le> idx" "idx < C" "0 \<le> i" "i < C - 1"
  shows "(idx - i - 1 + C) mod C \<noteq> idx"
proof
  assume h: "(idx - i - 1 + C) mod C = idx"
  show False
  proof (cases "i + 1 \<le> idx")
    case True
    have "(idx - i - 1 + C) mod C = (idx - i - 1) mod C" by simp
    also have "\<dots> = idx - i - 1"
      by (rule mod_pos_pos_trivial) (use True assms in linarith)+
    finally show False using h assms by linarith
  next
    case False
    have "(idx - i - 1 + C) mod C = idx - i - 1 + C"
      by (rule mod_pos_pos_trivial) (use False assms in linarith)+
    with h assms show False by linarith
  qed
qed

lemma slot_back_mod:
  assumes "ring_inv g" "0 \<le> i" "i < DATA_BUFFER_SIZE"
  shows "slot_back g i = nat ((dataBufferIndex g - i - 1 + DATA_BUFFER_SIZE) mod DATA_BUFFER_SIZE)"
proof -
  have "0 \<le> dataBufferIndex g - i - 1 + DATA_BUFFER_SIZE"
    using assms by (simp add: ring_inv_def)
  then show ?thesis
    unfolding slot_back_def by (simp add: smod_nonneg DATA_BUFFER_SIZE_pos)
qed

lemma slot_back_less:
  assumes "ring_inv g" "0 \<le> i" "i < DATA_BUFFER_SIZE"
  shows "slot_back g i < length (dataBuffer g)"
proof -
  have "(dataBufferIndex g - i - 1 + DATA_BUFFER_SIZE) mod DATA_BUFFER_SIZE < DATA_BUFFER_SIZE"
    using DATA_BUFFER_SIZE_pos by simp
  moreover have "0 \<le> (dataBufferIndex g - i - 1 + DATA_BUFFER_SIZE) mod DATA_BUFFER_SIZE"
    using DATA_BUFFER_SIZE_pos by simp
  ultimately show ?thesis
    using assms unfolding slot_back_mod [OF assms] ring_inv_def by linarith
qed

lemma add_index:
  assumes "ring_inv g"
  shows "dataBufferIndex (add_to_circular_buffer x g) = (dataBufferIndex g + 1) mod DATA_BUFFER_SIZE"
proof -
  have "0 \<le> dataBufferIndex g + 1" using assms by (simp add: ring_inv_def)
  then show ?thesis
    by (simp add: add_to_circular_buffer_def Let_def smod_nonneg DATA_BUFFER_SIZE_pos)
qed

lemma add_buffer:
  "dataBuffer (add_to_circular_buffer x g) = (dataBuffer g)[nat (dataBufferIndex g) := x]"
  by (simp add: add_to_circular_buffer_def Let_def)

lemma add_count:
  "dataBufferCount (add_to_circular_buffer x g) =
     (if dataBufferCount g < DATA_BUFFER_SIZE then dataBufferCount g + 1 else dataBufferCount g)"
  by (simp add: add_to_circular_buffer_def Let_def)

lemma slot_back_add_zero:
  assumes "ring_inv g"
  shows "slot_back (add_to_circular_buffer x g) 0 = nat (dataBufferIndex g)"
proof -
  have inv': "ring_inv (add_to_circular_buffer x g)" using assms by (rule ring_inv_add)
  have "slot_back (add_to_circular_buffer x g) 0 =
      nat (((dataBufferIndex g + 1) mod DATA_BUFFER_SIZE - 0 - 1 + DATA_BUFFER_SIZE) mod DATA_BUFFER_SIZE)"
    using slot_back_mod [OF inv', of 0] DATA_BUFFER_SIZE_pos by (simp add: add_index [OF assms])
  also have "\<dots> = nat (dataBufferIndex g)"
    using assms by (subst mod_step_zero) (simp_all add: ring_inv_def)
  finally show ?thesis .
qed

lemma slot_back_add_Suc:
  assumes "ring_inv g" "0 \<le> i" "i + 1 < DATA_BUFFER_SIZE"
  shows "slot_back (add_to_circular_buffer x g) (i + 1) = slot_back g i"
proof -
  have inv': "ring_inv (add_to_circular_buffer x g)" using assms(1) by (rule ring_inv_add)
  have "slot_back (add_to_circular_buffer x g) (i + 1) =
      nat (((dataBufferIndex g + 1) mod DATA_BUFFER_SIZE - (i + 1) - 1 + DATA_BUFFER_SIZE) mod DATA_BUFFER_SIZE)"
    using slot_back_mod [OF inv', of "i + 1"] assms by (simp add: add_index [OF assms(1)])
  also have "\<dots> = nat ((dataBufferIndex g - i - 1 + DATA_BUFFER_SIZE) mod DATA_BUFFER_SIZE)"
    by (simp only: mod_step_back [OF DATA_BUFFER_SIZE_pos])
  also have "\<dots> = slot_back g i"
    using slot_back_mod [OF assms(1), of i] assms by simp
  finally show ?thesis .
qed

lemma slot_back_neq_index:
  assumes "ring_inv g" "0 \<le> i" "i + 1 < DATA_BUFFER_SIZE"
  shows "slot_back g i \<noteq> nat (dataBufferIndex g)"
proof -
  have ne: "(dataBufferIndex g - i - 1 + DATA_BUFFER_SIZE) mod DATA_BUFFER_SIZE \<noteq> dataBufferIndex g"
    using assms by (intro mod_back_neq) (simp_all add: ring_inv_def)
  have less_slot: "i < DATA_BUFFER_SIZE" using assms by linarith
  have "0 \<le> (dataBufferIndex g - i - 1 + DATA_BUFFER_SIZE) mod DATA_BUFFER_SIZE"
    using DATA_BUFFER_SIZE_pos by simp
  moreover have "0 \<le> dataBufferIndex g" using assms by (simp add: ring_inv_def)
  ultimately show ?thesis
    using ne unfolding slot_back_mod [OF assms(1), of i, OF assms(2) less_slot] by linarith
qed

lemma visit_order_add:
  assumes "ring_inv g"
  shows "visit_order (add_to_circular_buffer x g) = take (nat DATA_BUFFER_SIZE) (x # visit_order g)"
proof (rule nth_equalityI)
  show len: "length (visit_order (add_to_circular_buffer x g)) =
        length (take (nat DATA_BUFFER_SIZE) (x # visit_order g))"
    using assms by (auto simp: visit_order_def add_count ring_inv_def)
next
  fix k assume "k < length (visit_order (add_to_circular_buffer x g))"
  then have k: "int k < dataBufferCount (add_to_circular_buffer x g)"
    by (simp add: visit_order_def)
  have cnt: "dataBufferCount (add_to_circular_buffer x g) \<le> DATA_BUFFER_SIZE"
    using ring_inv_add [OF assms, of x] by (simp add: ring_inv_def)
  have kC: "int k < DATA_BUFFER_SIZE" using k cnt by linarith
  have idx: "nat (dataBufferIndex g) < length (dataBuffer g)"
    using assms unfolding ring_inv_def by linarith
  have lhs: "visit_order (add_to_circular_buffer x g) ! k =
      (dataBuffer g)[nat (dataBufferIndex g) := x] ! slot_back (add_to_circular_buffer x g) (int k)"
    using k by (simp add: visit_order_def add_buffer)
  show "visit_order (add_to_circular_buffer x g) ! k = take (nat DATA_BUFFER_SIZE) (x # visit_order g) ! k"
  proof (cases k)
    case 0
    then show ?thesis
      using lhs idx kC by (simp add: slot_back_add_zero [OF assms])
  next
    case (Suc j)
    have j1: "int j + 1 < DATA_BUFFER_SIZE" using kC Suc by simp
    have jc: "int j < dataBufferCount g"
      using k Suc by (simp add: add_count split: if_splits)
    have "slot_back (add_to_circular_buffer x g) (int k) = slot_back g (int j)"
      using slot_back_add_Suc [OF assms, of "int j" x] j1 Suc by (simp add: add.commute)
    moreover have "slot_back g (int j) \<noteq> nat (dataBufferIndex g)"
      using slot_back_neq_index [OF assms, of "int j"] j1 by simp
    ultimately have "visit_order (add_to_circular_buffer x g) ! k = dataBuffer g ! slot_back g (int j)"
      using lhs by simp
    moreover have "take (nat DATA_BUFFER_SIZE) (x # visit_order g) ! k = visit_order g ! j"
      using kC Suc by simp
    moreover have "visit_order g ! j = dataBuffer g ! slot_back g (int j)"
      using jc by (simp add: visit_order_def)
    ultimately show ?thesis by simp
  qed
qed

lemma add_sensorCount: "sensorCount (add_to_circular_buffer x g) = sensorCount g"
  by (simp add: add_to_circular_buffer_def Let_def)

lemma fold_add_inv:
  "ring_inv g \<Longrightarrow> ring_inv (fold add_to_circular_buffer xs g)"
  by (induction xs arbitrary: g) (simp_all add: ring_inv_add)

lemma fold_add_sensorCount:
  "sensorCount (fold add_to_circular_buffer xs g) = sensorCount g"
  by (induction xs arbitrary: g) (simp_all add: add_sensorCount)

lemma fold_add_visit_order:
  "ring_inv g \<Longrightarrow>
   visit_order (fold add_to_circular_buffer xs g) = take (nat DATA_BUFFER_SIZE) (rev xs @ visit_order g)"
proof (induction xs arbitrary: g)
  case Nil
  then have "length (visit_order g) \<le> nat DATA_BUFFER_SIZE"
    by (simp add: visit_order_def ring_inv_def nat_mono)
  then show ?case by simp
next
  case (Cons x xs)
  have "visit_order (fold add_to_circular_buffer (x # xs) g) =
        take (nat DATA_BUFFER_SIZE) (rev xs @ visit_order (add_to_circular_buffer x g))"
    using Cons.IH [OF ring_inv_add [OF Cons.prems]] by simp
  also have "\<dots> = take (nat DATA_BUFFER_SIZE) (rev xs @ take (nat DATA_BUFFER_SIZE) (x # visit_order g))"
    by (simp only: visit_order_add [OF Cons.prems])
  also have "\<dots> = take (nat DATA_BUFFER_SIZE) (rev xs @ x # visit_order g)"
    by (simp add: take_add min_def) 
  finally show ?case by simp
qed

lemma length_visit_order: "length (visit_order g) = nat (dataBufferCount g)"
  by (simp add: visit_order_def)

lemma fold_add_count:
  "ring_inv g \<Longrightarrow>
   dataBufferCount (fold add_to_circular_buffer xs g) =
     min DATA_BUFFER_SIZE (int (length xs) + dataBufferCount g)"
proof (induction xs arbitrary: g)
  case Nil
  then show ?case by (simp add: ring_inv_def)
next
  case (Cons x xs)
  show ?case
    using Cons.IH [OF ring_inv_add [OF Cons.prems], of x] Cons.prems
    by (auto simp: add_count ring_inv_def algebra_simps)
qed

lemma visit_order_hd:
  "0 < dataBufferCount g \<Longrightarrow> hd (visit_order g) = dataBuffer g ! slot_back g 0"
  by (simp add: visit_order_def hd_map upt_conv_Cons)


lemma MAX_DATA_POINTS_pos: "0 < MAX_DATA_POINTS"
  by (simp add: MAX_DATA_POINTS_def)

lemma mod_succ_int:
  fixes k M :: int
  assumes "0 < M"
  shows "(k + 1) mod M = (if k mod M + 1 \<ge> M then 0 else k mod M + 1)"
proof -
  have eq: "(k + 1) mod M = (k mod M + 1) mod M"
    by (simp add: mod_add_left_eq)
  have lo: "0 \<le> k mod M" and hi: "k mod M < M" using assms by simp_all
  show ?thesis
  proof (cases "k mod M + 1 \<ge> M")
    case True
    then have "k mod M + 1 = M" using hi by linarith
    then show ?thesis using eq True by simp
  next
    case False
    then have "(k mod M + 1) mod M = k mod M + 1"
      using lo by (intro mod_pos_pos_trivial) linarith+
    then show ?thesis using eq False by simp
  qed
qed

lemma sized_lengths:
  assumes "sized td" "i < nat MAX_SENSORS"
  shows "i < length (tempData_data td)" "i < length (tempData_dataCount td)"
    "i < length (tempData_currentDataIndex td)" "i < length (tempData_dataOverflow td)"
    "int (length (tempData_data td ! i)) = MAX_DATA_POINTS"
proof -
  show a: "i < length (tempData_data td)" using assms unfolding sized_def by linarith
  show "i < length (tempData_dataCount td)" using assms unfolding sized_def by linarith
  show "i < length (tempData_currentDataIndex td)" using assms unfolding sized_def by linarith
  show "i < length (tempData_dataOverflow td)" using assms unfolding sized_def by linarith
  show "int (length (tempData_data td ! i)) = MAX_DATA_POINTS"
    using assms(1) a unfolding sized_def by (simp add: list_all_length)
qed

lemma store_reading_disconnected:
  "store_reading i DEVICE_DISCONNECTED_C now td = td"
  unfolding store_reading_def by (simp only: if_False simp_thms)

lemma SensorData_overwrite:
  "(r::SensorData)\<lparr>temperature := a, sd_timestamp := b\<rparr> = \<lparr>temperature = a, sd_timestamp = b\<rparr>"
  by (cases r) simp

lemma store_reading_connected:
  assumes "temp \<noteq> DEVICE_DISCONNECTED_C"
  shows "store_reading i temp now td =
     td\<lparr>tempData_data :=
          (tempData_data td)[i := (tempData_data td ! i)[nat (tempData_currentDataIndex td ! i) :=
             \<lparr>temperature = temp, sd_timestamp = now\<rparr>]],
        tempData_currentDataIndex :=
          (if (tempData_currentDataIndex td)[i := tempData_currentDataIndex td ! i + 1] ! i \<ge> MAX_DATA_POINTS
           then (tempData_currentDataIndex td)[i := 0]
           else (tempData_currentDataIndex td)[i := tempData_currentDataIndex td ! i + 1]),
        tempData_dataOverflow :=
          (if (tempData_currentDataIndex td)[i := tempData_currentDataIndex td ! i + 1] ! i \<ge> MAX_DATA_POINTS
           then (tempData_dataOverflow td)[i := True]
           else tempData_dataOverflow td),
        tempData_dataCount :=
          (if tempData_dataCount td ! i < MAX_DATA_POINTS
           then (tempData_dataCount td)[i := tempData_dataCount td ! i + 1]
           else tempData_dataCount td)\<rparr>"
proof -
  define n where "n = nat (tempData_currentDataIndex td ! i)"
  define M where "M = MAX_DATA_POINTS"
  show ?thesis
    unfolding store_reading_def Let_def n_def [symmetric] M_def [symmetric]
    using assms by (simp add: SensorData_overwrite)
qed

lemma store_reading_sensorCount:
  "tempData_sensorCount (store_reading i temp now td) = tempData_sensorCount td"
  by (cases "temp = DEVICE_DISCONNECTED_C")
     (simp_all add: store_reading_disconnected store_reading_connected)

lemma store_reading_sized:
  assumes "sized td"
  shows "sized (store_reading i temp now td)"
proof -
  have "list_all (\<lambda>ring. int (length ring) = MAX_DATA_POINTS)
          ((tempData_data td)[i := (tempData_data td ! i)[n := x]])" for n x
  proof (cases "i < length (tempData_data td)")
    case True
    then show ?thesis
      using assms unfolding sized_def list_all_length
      by (auto simp: nth_list_update)
  next
    case False
    then have "(tempData_data td)[i := (tempData_data td ! i)[n := x]] = tempData_data td"
      by (intro list_update_beyond) simp
    then show ?thesis
      using assms unfolding sized_def by simp
  qed
  then show ?thesis
    using assms
    by (cases "temp = DEVICE_DISCONNECTED_C")
       (simp_all add: store_reading_disconnected store_reading_connected sized_def)
qed

lemma store_reading_step:
  assumes at: "channel_at td i k" and i: "i < nat MAX_SENSORS" and c: "temp \<noteq> DEVICE_DISCONNECTED_C"
  shows "channel_at (store_reading i temp now td) i (Suc k)"
    and "tempData_data (store_reading i temp now td) ! i ! nat (int k mod MAX_DATA_POINTS) =
           \<lparr>temperature = temp, sd_timestamp = now\<rparr>"
proof -
  have sz: "sized td" using at by (simp add: channel_at_def)
  note len = sized_lengths [OF sz i]
  have idx: "tempData_currentDataIndex td ! i = int k mod MAX_DATA_POINTS"
    and cnt: "tempData_dataCount td ! i = min (int k) MAX_DATA_POINTS"
    and ovf: "tempData_dataOverflow td ! i = (int k \<ge> MAX_DATA_POINTS)"
    using at by (simp_all add: channel_at_def)
  have lo: "0 \<le> int k mod MAX_DATA_POINTS" and hi: "int k mod MAX_DATA_POINTS < MAX_DATA_POINTS"
    using MAX_DATA_POINTS_pos by simp_all
  have succ: "int (Suc k) mod MAX_DATA_POINTS =
      (if int k mod MAX_DATA_POINTS + 1 \<ge> MAX_DATA_POINTS then 0 else int k mod MAX_DATA_POINTS + 1)"
    using mod_succ_int [OF MAX_DATA_POINTS_pos, of "int k"] by (simp add: add.commute)
  have wrap: "int k mod MAX_DATA_POINTS + 1 \<ge> MAX_DATA_POINTS \<Longrightarrow> int (Suc k) \<ge> MAX_DATA_POINTS"
  proof -
    assume "int k mod MAX_DATA_POINTS + 1 \<ge> MAX_DATA_POINTS"
    moreover have "int k mod MAX_DATA_POINTS \<le> int k"
      by (rule zmod_le_nonneg_dividend) simp
    ultimately show ?thesis by simp
  qed
  have nowrap: "\<not> int k mod MAX_DATA_POINTS + 1 \<ge> MAX_DATA_POINTS \<Longrightarrow>
      (int (Suc k) \<ge> MAX_DATA_POINTS) = (int k \<ge> MAX_DATA_POINTS)"
  proof -
    assume nw: "\<not> int k mod MAX_DATA_POINTS + 1 \<ge> MAX_DATA_POINTS"
    have "int k + 1 \<noteq> MAX_DATA_POINTS"
    proof
      assume e: "int k + 1 = MAX_DATA_POINTS"
      then have "int k < MAX_DATA_POINTS" by simp
      then have "int k mod MAX_DATA_POINTS = int k" by simp
      with nw e show False by simp
    qed
    then show ?thesis by auto
  qed
  have sized': "sized (store_reading i temp now td)" using sz by (rule store_reading_sized)
  show "channel_at (store_reading i temp now td) i (Suc k)"
    unfolding channel_at_def
  proof (intro conjI)
    show "sized (store_reading i temp now td)" by (rule sized')
    show "tempData_currentDataIndex (store_reading i temp now td) ! i = int (Suc k) mod MAX_DATA_POINTS"
      using len idx succ by (simp add: store_reading_connected [OF c])
    show "tempData_dataCount (store_reading i temp now td) ! i = min (int (Suc k)) MAX_DATA_POINTS"
      using len cnt by (auto simp: store_reading_connected [OF c] min_def)
    show "tempData_dataOverflow (store_reading i temp now td) ! i = (MAX_DATA_POINTS \<le> int (Suc k))"
      using len idx ovf wrap nowrap by (auto simp: store_reading_connected [OF c])
  qed
  have "nat (int k mod MAX_DATA_POINTS) < length (tempData_data td ! i)"
    using len(5) lo hi by linarith
  then show "tempData_data (store_reading i temp now td) ! i ! nat (int k mod MAX_DATA_POINTS) =
           \<lparr>temperature = temp, sd_timestamp = now\<rparr>"
    using len idx by (simp add: store_reading_connected [OF c])
qed


lemma store_run_stored: "store_run i rs td = store_run i (stored_readings rs) td"
  unfolding store_run_def stored_readings_def
  by (induction rs arbitrary: td) (simp_all add: store_reading_disconnected)

lemma store_run_snoc:
  "store_run i (xs @ [x]) td = store_reading i (fst x) (snd x) (store_run i xs td)"
  by (simp add: store_run_def)

lemma store_run_channel_at:
  assumes "channel_at td i 0" "i < nat MAX_SENSORS" "\<forall>r\<in>set xs. fst r \<noteq> DEVICE_DISCONNECTED_C"
  shows "channel_at (store_run i xs td) i (length xs)"
  using assms(3)
proof (induction xs rule: rev_induct)
  case Nil
  then show ?case using assms(1) by (simp add: store_run_def)
next
  case (snoc x xs)
  from snoc.prems have c: "\<forall>r\<in>set xs. fst r \<noteq> DEVICE_DISCONNECTED_C"
    and x: "fst x \<noteq> DEVICE_DISCONNECTED_C"
    by simp_all
  show ?case
    using store_reading_step(1) [OF snoc.IH [OF c] assms(2) x]
    by (simp add: store_run_snoc)
qed

lemma store_run_newest:
  assumes "channel_at td i 0" "i < nat MAX_SENSORS" "\<forall>r\<in>set xs. fst r \<noteq> DEVICE_DISCONNECTED_C"
    "xs \<noteq> []"
  shows "tempData_data (store_run i xs td) ! i !
           update_chart_index (store_run i xs td) i (tempData_dataCount (store_run i xs td) ! i - 1) =
         \<lparr>temperature = fst (last xs), sd_timestamp = snd (last xs)\<rparr>"
proof -
  obtain ys y where xs: "xs = ys @ [y]"
    using assms(4) by (metis rev_exhaust)
  have cy: "\<forall>r\<in>set ys. fst r \<noteq> DEVICE_DISCONNECTED_C" and y: "fst y \<noteq> DEVICE_DISCONNECTED_C"
    using assms(3) xs by simp_all
  have at_ys: "channel_at (store_run i ys td) i (length ys)"
    using assms(1,2) cy by (rule store_run_channel_at)
  have at_xs: "channel_at (store_run i xs td) i (Suc (length ys))"
    using store_reading_step(1) [OF at_ys assms(2) y] by (simp add: xs store_run_snoc)
  have slot: "tempData_data (store_run i xs td) ! i ! nat (int (length ys) mod MAX_DATA_POINTS) =
      \<lparr>temperature = fst y, sd_timestamp = snd y\<rparr>"
    using store_reading_step(2) [OF at_ys assms(2) y] by (simp add: xs store_run_snoc)
  have idx: "tempData_currentDataIndex (store_run i xs td) ! i = (int (length ys) + 1) mod MAX_DATA_POINTS"
    using at_xs by (simp add: channel_at_def add.commute)
  have lo: "0 \<le> int (length ys) mod MAX_DATA_POINTS"
    and hi: "int (length ys) mod MAX_DATA_POINTS < MAX_DATA_POINTS"
    using MAX_DATA_POINTS_pos by simp_all
  have "update_chart_index (store_run i xs td) i (tempData_dataCount (store_run i xs td) ! i - 1) =
      nat ((((int (length ys) + 1) mod MAX_DATA_POINTS) - 1 + MAX_DATA_POINTS) smod MAX_DATA_POINTS)"
    by (simp add: update_chart_index_def idx)
  also have "\<dots> = nat ((((int (length ys) + 1) mod MAX_DATA_POINTS) - 1 + MAX_DATA_POINTS) mod MAX_DATA_POINTS)"
  proof -
    have "0 \<le> (int (length ys) + 1) mod MAX_DATA_POINTS" using MAX_DATA_POINTS_pos by simp
    then have "0 \<le> ((int (length ys) + 1) mod MAX_DATA_POINTS) - 1 + MAX_DATA_POINTS"
      using MAX_DATA_POINTS_pos by linarith
    then show ?thesis by (simp only: smod_nonneg [OF _ MAX_DATA_POINTS_pos])
  qed
  also have "\<dots> = nat (int (length ys) mod MAX_DATA_POINTS)"
  proof -
    have "(((int (length ys) + 1) mod MAX_DATA_POINTS) - 1 + MAX_DATA_POINTS) mod MAX_DATA_POINTS =
          ((int (length ys) mod MAX_DATA_POINTS + 1) mod MAX_DATA_POINTS - 0 - 1 + MAX_DATA_POINTS) mod MAX_DATA_POINTS"
      by (simp add: mod_add_left_eq)
    also have "\<dots> = int (length ys) mod MAX_DATA_POINTS"
      using lo hi by (rule mod_step_zero)
    finally show ?thesis by simp
  qed
  finally show ?thesis using slot by (simp add: xs)
qed


lemma length_fold_update: "length (fold (\<lambda>i xs. xs[i := v]) is xs) = length xs"
  by (induction "is" arbitrary: xs) simp_all

lemma fold_update_nth:
  "i < n \<Longrightarrow> n \<le> length xs \<Longrightarrow> fold (\<lambda>i xs. xs[i := v]) [0..<n] xs ! i = v"
proof (induction n)
  case 0
  then show ?case by simp
next
  case (Suc n)
  show ?case
  proof (cases "i = n")
    case True
    then show ?thesis using Suc.prems by (simp add: length_fold_update)
  next
    case False
    then show ?thesis using Suc by (simp add: length_fold_update)
  qed
qed

lemma clear_fold:
  "fold (\<lambda>i acc. acc\<lparr>tempData_dataCount := (tempData_dataCount acc)[i := 0],
                      tempData_currentDataIndex := (tempData_currentDataIndex acc)[i := 0],
                      tempData_dataOverflow := (tempData_dataOverflow acc)[i := False]\<rparr>) [0..<n] td =
   td\<lparr>tempData_dataCount := fold (\<lambda>i xs. xs[i := 0]) [0..<n] (tempData_dataCount td),
      tempData_currentDataIndex := fold (\<lambda>i xs. xs[i := 0]) [0..<n] (tempData_currentDataIndex td),
      tempData_dataOverflow := fold (\<lambda>i xs. xs[i := False]) [0..<n] (tempData_dataOverflow td)\<rparr>"
  by (induction n) simp_all

lemma clear_data_sized: "sized td \<Longrightarrow> sized (clear_data td)"
  by (simp add: clear_data_def clear_fold sized_def length_fold_update)

lemma clear_data_channel_at:
  assumes "sized td" "i < nat MAX_SENSORS"
  shows "channel_at (clear_data td) i 0"
proof -
  have n: "nat MAX_SENSORS \<le> length (tempData_dataCount td)"
    "nat MAX_SENSORS \<le> length (tempData_currentDataIndex td)"
    "nat MAX_SENSORS \<le> length (tempData_dataOverflow td)"
    using assms(1) unfolding sized_def by linarith+
  show ?thesis
    unfolding channel_at_def
    using clear_data_sized [OF assms(1)] MAX_DATA_POINTS_pos
    by (simp add: clear_data_def clear_fold fold_update_nth [OF assms(2)] n)
qed

lemma sized_initial: "sized initial_tempData"
  by (simp add: sized_def initial_tempData_def list_all_length MAX_SENSORS_def MAX_DATA_POINTS_def)

lemma initial_channel_at: "i < nat MAX_SENSORS \<Longrightarrow> channel_at initial_tempData i 0"
  using MAX_DATA_POINTS_pos
  by (simp add: channel_at_def sized_initial) (simp add: initial_tempData_def)

lemma readSensors_fst:
  "fst (readSensors P now get d0 gf) =
     add_to_circular_buffer (newData_of (sensorCount (fst gf)) now get d0) (fst gf)"
  by (simp add: readSensors_def Let_def)

lemma readSensors_run_fst:
  "fst (readSensors_run P inputs gf) =
     fold add_to_circular_buffer (samples_of (sensorCount (fst gf)) inputs) (fst gf)"
  unfolding readSensors_run_def samples_of_def
proof (induction inputs arbitrary: gf)
  case Nil
  then show ?case by simp
next
  case (Cons a inputs)
  show ?case
    by (simp add: Cons.IH readSensors_fst add_sensorCount)
qed

lemma ring_inv_initial: "ring_inv (initial_globals\<lparr>sensorCount := n\<rparr>)"
  using DATA_BUFFER_SIZE_pos by (simp add: ring_inv_def initial_globals_def)

lemma visit_order_empty: "dataBufferCount g = 0 \<Longrightarrow> visit_order g = []"
  by (simp add: visit_order_def)

section \<open>Claim C1\<close>

text \<open>
  C1. After \<open>N\<close> appends to an empty ring the count is \<open>min N C\<close> and the slot one
  before the cursor holds the \<open>N\<close>-th sample appended; in the sketch that keeps an overflow
  flag, the flag is set exactly from \<open>N = C\<close> on. TFT sketch: \<open>N\<close> calls of
  \<^verbatim>\<open>readSensors\<close>. LVGL sketch: the readings of a channel, of which the stored_readings ones
  are appended.
\<close>

theorem C1_ring_store_appends:
  assumes "inputs \<noteq> []" and "i < nat MAX_SENSORS" and "stored_readings rs \<noteq> []"
  shows "(let g = fst (readSensors_run P inputs (initial_globals\<lparr>sensorCount := n\<rparr>, fs)) in
            dataBufferCount g = min (int (length inputs)) DATA_BUFFER_SIZE \<and>
            dataBuffer g ! slot_back g 0 = last (samples_of n inputs) \<and>
            drawMainScreen_temp g c = temperatures (last (samples_of n inputs)) ! c) \<and>
         (let td = store_run i rs initial_tempData in
            tempData_dataCount td ! i = min (int (length (stored_readings rs))) MAX_DATA_POINTS \<and>
            tempData_dataOverflow td ! i = (int (length (stored_readings rs)) \<ge> MAX_DATA_POINTS) \<and>
            tempData_data td ! i ! update_chart_index td i (tempData_dataCount td ! i - 1) =
              \<lparr>temperature = fst (last (stored_readings rs)), sd_timestamp = snd (last (stored_readings rs))\<rparr>)"
proof -
  let ?init = "initial_globals\<lparr>sensorCount := n\<rparr>"
  let ?g = "fst (readSensors_run P inputs (?init, fs))"
  let ?xs = "samples_of n inputs"
  have g: "?g = fold add_to_circular_buffer ?xs ?init"
    using readSensors_run_fst [of P inputs "(?init, fs)"] by simp
  have inv0: "ring_inv ?init" by (rule ring_inv_initial)
  have c0: "dataBufferCount ?init = 0" by (simp add: initial_globals_def)
  have ne: "?xs \<noteq> []" using assms(1) by (simp add: samples_of_def)
  have cnt: "dataBufferCount ?g = min (int (length inputs)) DATA_BUFFER_SIZE"
    unfolding g fold_add_count [OF inv0] by (simp add: c0 samples_of_def min.commute)
  have pos: "0 < dataBufferCount ?g"
    using cnt assms(1) DATA_BUFFER_SIZE_pos by (cases inputs) simp_all
  have vo: "visit_order ?g = take (nat DATA_BUFFER_SIZE) (rev ?xs)"
    unfolding g fold_add_visit_order [OF inv0] by (simp add: visit_order_empty [OF c0])
  have "hd (visit_order ?g) = last ?xs"
    using ne DATA_BUFFER_SIZE_pos by (simp add: vo hd_rev)
  then have newest: "dataBuffer ?g ! slot_back ?g 0 = last ?xs"
    using visit_order_hd [OF pos] by simp
  have shown: "drawMainScreen_temp ?g c = temperatures (last ?xs) ! c"
    using pos newest by (simp add: drawMainScreen_temp_def)
  let ?cs = "stored_readings rs"
  let ?td = "store_run i rs initial_tempData"
  have all: "\<forall>r\<in>set ?cs. fst r \<noteq> DEVICE_DISCONNECTED_C" by (simp add: stored_readings_def)
  have at: "channel_at ?td i (length ?cs)"
    using store_run_channel_at [OF initial_channel_at [OF assms(2)] assms(2) all]
    by (simp add: store_run_stored [symmetric])
  have count: "tempData_dataCount ?td ! i = min (int (length ?cs)) MAX_DATA_POINTS"
    using at by (simp add: channel_at_def)
  have flag: "tempData_dataOverflow ?td ! i = (int (length ?cs) \<ge> MAX_DATA_POINTS)"
    using at by (simp add: channel_at_def)
  have latest: "tempData_data ?td ! i ! update_chart_index ?td i (tempData_dataCount ?td ! i - 1) =
         \<lparr>temperature = fst (last ?cs), sd_timestamp = snd (last ?cs)\<rparr>"
    using store_run_newest [OF initial_channel_at [OF assms(2)] assms(2) all assms(3)]
    by (simp add: store_run_stored [symmetric])
  show ?thesis
    unfolding Let_def using cnt newest shown count flag latest by blast
qed

theorem C1_ring_store_appends_witness:
  "(let g = fst (readSensors_run utc_platform
                   [(1700000000, (\<lambda>i. 21.5), sample_zero), (1700000060, (\<lambda>i. 22), sample_zero)]
                   (initial_globals\<lparr>sensorCount := 2\<rparr>, spiffs_empty)) in
      dataBufferCount g = 2 \<and>
      timestamp (dataBuffer g ! slot_back g 0) = 1700000060 \<and>
      drawMainScreen_temp g 1 = 22) \<and>
   (let td = store_run 0 [(21.5, 1700000000), (DEVICE_DISCONNECTED_C, 1700000060), (22, 1700000120)]
               initial_tempData in
      tempData_dataCount td ! 0 = 2 \<and>
      \<not> tempData_dataOverflow td ! 0 \<and>
      tempData_data td ! 0 ! update_chart_index td 0 (tempData_dataCount td ! 0 - 1) =
        \<lparr>temperature = 22, sd_timestamp = 1700000120\<rparr>)"
proof -
  have h1: "[(1700000000::int, (\<lambda>i::nat. 21.5::real), sample_zero), (1700000060, (\<lambda>i. 22), sample_zero)] \<noteq> []"
    by simp
  have h2: "(0::nat) < nat MAX_SENSORS" by (simp add: MAX_SENSORS_def)
  have cs: "stored_readings [(21.5, 1700000000), (DEVICE_DISCONNECTED_C, 1700000060), (22, 1700000120)] =
      [(21.5, 1700000000), (22, 1700000120)]"
    by (simp add: stored_readings_def DEVICE_DISCONNECTED_C_def)
  have h3: "stored_readings [(21.5, 1700000000), (DEVICE_DISCONNECTED_C, 1700000060), (22, 1700000120)] \<noteq> []"
    by (simp only: cs) simp
  have s: "last (samples_of 2 [(1700000000, (\<lambda>i. 21.5), sample_zero), (1700000060, (\<lambda>i. 22), sample_zero)]) =
      \<lparr>timestamp = 1700000060, temperatures = [22, 22, 0, 0, 0, 0, 0, 0, 0, 0]\<rparr>"
    by (simp add: samples_of_def newData_of_def sample_zero_def upt_conv_Cons replicate_Suc [symmetric] del: replicate_Suc replicate.simps) (simp add: numeral_eq_Suc)
  show ?thesis
    using C1_ring_store_appends [OF h1 h2 h3, of utc_platform 2 spiffs_empty 1]
    unfolding Let_def cs s
    by (auto simp: DATA_BUFFER_SIZE_def MAX_DATA_POINTS_def)
qed

section \<open>Ring bounds: claim C10\<close>

text \<open>The step of \<^verbatim>\<open>loadData\<close> under \<^verbatim>\<open>// Add to buffer\<close>.\<close>

lemma ring_inv_load_step:
  assumes "ring_inv g" "dataBufferCount g < DATA_BUFFER_SIZE"
  shows "ring_inv (g\<lparr>dataBuffer := (dataBuffer g)[nat (dataBufferIndex g) := x],
                     dataBufferIndex := (dataBufferIndex g + 1) smod DATA_BUFFER_SIZE,
                     dataBufferCount := dataBufferCount g + 1\<rparr>)"
proof -
  have "0 \<le> dataBufferIndex g + 1" using assms by (simp add: ring_inv_def)
  then have "(dataBufferIndex g + 1) smod DATA_BUFFER_SIZE = (dataBufferIndex g + 1) mod DATA_BUFFER_SIZE"
    by (rule smod_nonneg) (rule DATA_BUFFER_SIZE_pos)
  moreover have "0 \<le> (dataBufferIndex g + 1) mod DATA_BUFFER_SIZE"
    and "(dataBufferIndex g + 1) mod DATA_BUFFER_SIZE < DATA_BUFFER_SIZE"
    using DATA_BUFFER_SIZE_pos by simp_all
  ultimately show ?thesis
    using assms by (simp add: ring_inv_def)
qed

lemma loadData_loop_stop:
  "file = [] \<or> \<not> dataBufferCount g < DATA_BUFFER_SIZE \<Longrightarrow> loadData_loop P data file g = g"
  by (subst loadData_loop.simps) auto

lemma loadData_loop_blank:
  "file \<noteq> [] \<Longrightarrow> dataBufferCount g < DATA_BUFFER_SIZE \<Longrightarrow>
   trim (fst (readStringUntil CHR 0x0A file)) = [] \<Longrightarrow>
   loadData_loop P data file g = loadData_loop P data (snd (readStringUntil CHR 0x0A file)) g"
  by (subst loadData_loop.simps) (simp add: Let_def)

lemma loadData_loop_record:
  "file \<noteq> [] \<Longrightarrow> dataBufferCount g < DATA_BUFFER_SIZE \<Longrightarrow>
   trim (fst (readStringUntil CHR 0x0A file)) \<noteq> [] \<Longrightarrow>
   loadData_loop P data file g =
     loadData_loop P (parse_line P data (trim (fst (readStringUntil CHR 0x0A file))))
       (snd (readStringUntil CHR 0x0A file))
       (g\<lparr>dataBuffer := (dataBuffer g)[nat (dataBufferIndex g) :=
               parse_line P data (trim (fst (readStringUntil CHR 0x0A file)))],
          dataBufferIndex := (dataBufferIndex g + 1) smod DATA_BUFFER_SIZE,
          dataBufferCount := dataBufferCount g + 1\<rparr>)"
  by (subst loadData_loop.simps) (simp add: Let_def)

lemma ring_inv_loadData_loop:
  "ring_inv g \<Longrightarrow> ring_inv (loadData_loop P data file g)"
proof (induction P data "file" g rule: loadData_loop.induct)
  case (1 P data "file" g)
  show ?case
  proof (cases "file \<noteq> [] \<and> dataBufferCount g < DATA_BUFFER_SIZE")
    case False
    then show ?thesis using "1.prems" by (simp add: loadData_loop_stop)
  next
    case True
    show ?thesis
    proof (cases "length (trim (fst (readStringUntil CHR 0x0A file))) = 0")
      case blank: True
      have "ring_inv (loadData_loop P data (snd (readStringUntil CHR 0x0A file)) g)"
        using "1.IH"(1) [OF True refl refl blank "1.prems"] .
      then show ?thesis
        using True blank by (simp add: loadData_loop_blank)
    next
      case nonblank: False
      have "ring_inv (loadData_loop P (parse_line P data (trim (fst (readStringUntil CHR 0x0A file))))
              (snd (readStringUntil CHR 0x0A file))
              (g\<lparr>dataBuffer := (dataBuffer g)[nat (dataBufferIndex g) :=
                      parse_line P data (trim (fst (readStringUntil CHR 0x0A file)))],
                 dataBufferIndex := (dataBufferIndex g + 1) smod DATA_BUFFER_SIZE,
                 dataBufferCount := dataBufferCount g + 1\<rparr>))"
        using "1.IH"(2) [OF True refl refl nonblank] ring_inv_load_step [OF "1.prems"] True
        by blast
      then show ?thesis
        using True nonblank by (simp add: loadData_loop_record)
    qed
  qed
qed

lemma ring_inv_loadData:
  assumes "ring_inv g"
  shows "ring_inv (loadData P data0 fs g)"
proof -
  have "ring_inv (g\<lparr>dataBufferCount := 0, dataBufferIndex := 0\<rparr>)"
    using assms DATA_BUFFER_SIZE_pos by (simp add: ring_inv_def)
  then show ?thesis
    using assms by (auto simp: loadData_def ring_inv_loadData_loop split: option.splits)
qed

lemma store_reading_channel_inv:
  assumes sz: "sized td" and j: "j < nat MAX_SENSORS" and inv: "channel_inv td j"
  shows "channel_inv (store_reading i temp now td) j"
proof (cases "temp = DEVICE_DISCONNECTED_C")
  case True
  then show ?thesis using inv by (simp add: store_reading_disconnected)
next
  case c: False
  note len = sized_lengths [OF sz j]
  show ?thesis
  proof (cases "i = j")
    case True
    then show ?thesis
      using inv len MAX_DATA_POINTS_pos
      by (auto simp: store_reading_connected [OF c] channel_inv_def)
  next
    case False
    then show ?thesis
      using inv len
      by (auto simp: store_reading_connected [OF c] channel_inv_def)
  qed
qed

lemma store_reading_rings_inv:
  assumes "rings_inv td"
  shows "rings_inv (store_reading i temp now td)"
  using assms store_reading_sized [of td i temp now]
  unfolding rings_inv_def list_all_iff
  by (auto intro: store_reading_channel_inv)

text \<open>
  The reading loop of the LVGL sketch. With a sensor count within the declared number of
  channels every access falls within the arrays and the bounds are kept; with a larger
  count the loop reaches an index past the arrays.
\<close>

lemma rings_inv_within_arrays:
  assumes "rings_inv td" "i < nat MAX_SENSORS"
  shows "within_arrays i temp td"
proof -
  have "channel_inv td i"
    using assms by (simp add: rings_inv_def list_all_iff)
  moreover have "int i < MAX_SENSORS" using assms(2) by linarith
  ultimately show ?thesis
    by (simp add: within_arrays_def channel_inv_def)
qed

lemma fold_readings_rings_inv:
  assumes "rings_inv td" "\<forall>i\<in>set is. i < nat MAX_SENSORS"
  shows "\<exists>td'. fold (\<lambda>i r. case r of
                               None \<Rightarrow> None
                             | Some acc \<Rightarrow>
                                 if within_arrays i (f i) acc
                                 then Some (store_reading i (f i) (t i) acc)
                                 else None) is (Some td) = Some td' \<and> rings_inv td'"
  using assms
proof (induction "is" arbitrary: td)
  case Nil
  then show ?case by simp
next
  case (Cons a "is")
  have a: "a < nat MAX_SENSORS" using Cons.prems(2) by simp
  have w: "within_arrays a (f a) td"
    using Cons.prems(1) a by (rule rings_inv_within_arrays)
  have inv: "rings_inv (store_reading a (f a) (t a) td)"
    using Cons.prems(1) by (rule store_reading_rings_inv)
  have rest: "\<forall>i\<in>set is. i < nat MAX_SENSORS" using Cons.prems(2) by simp
  show ?case
    using Cons.IH [OF inv rest] w by simp
qed

lemma sensorTask_readings_rings_inv:
  assumes "rings_inv td" "tempData_sensorCount td \<le> MAX_SENSORS"
  shows "\<exists>td'. sensorTask_readings getTempC now td = Some td' \<and> rings_inv td'"
proof -
  have "\<forall>i\<in>set [0..<nat (tempData_sensorCount td)]. i < nat MAX_SENSORS"
    using assms(2) by auto
  then show ?thesis
    unfolding sensorTask_readings_def using assms(1) by (rule fold_readings_rings_inv [rotated])
qed




lemma clear_data_rings_inv:
  assumes "sized td"
  shows "rings_inv (clear_data td)"
proof -
  have "channel_inv (clear_data td) i" if "i < nat MAX_SENSORS" for i
    using clear_data_channel_at [OF assms that] MAX_DATA_POINTS_pos
    by (simp add: channel_at_def channel_inv_def)
  then show ?thesis
    using clear_data_sized [OF assms] by (simp add: rings_inv_def list_all_iff)
qed

lemma update_chart_index_less:
  assumes "rings_inv td" "i < nat MAX_SENSORS" "0 \<le> j" "j < tempData_dataCount td ! i"
  shows "update_chart_index td i j < length (tempData_data td ! i)"
proof -
  have sz: "sized td" and inv: "channel_inv td i"
    using assms(1,2) by (simp_all add: rings_inv_def list_all_iff)
  note len = sized_lengths [OF sz assms(2)]
  let ?a = "tempData_currentDataIndex td ! i - (tempData_dataCount td ! i - j) + MAX_DATA_POINTS"
  have nonneg: "0 \<le> ?a" using inv assms(3,4) unfolding channel_inv_def by linarith
  have "?a smod MAX_DATA_POINTS = ?a mod MAX_DATA_POINTS"
    using nonneg MAX_DATA_POINTS_pos by (rule smod_nonneg)
  moreover have "0 \<le> ?a mod MAX_DATA_POINTS" "?a mod MAX_DATA_POINTS < MAX_DATA_POINTS"
    using MAX_DATA_POINTS_pos by simp_all
  ultimately show ?thesis
    unfolding update_chart_index_def using len(5) by linarith
qed


text \<open>
  The bounds are kept by \<^verbatim>\<open>readSensors\<close> and \<^verbatim>\<open>loadData\<close> of the TFT sketch, by the
  \<^verbatim>\<open>Clear Data\<close> handler of the LVGL sketch, and by the reading loop of its
  \<^verbatim>\<open>sensorTask\<close> as long as the sensor count is at most \<^verbatim>\<open>MAX_SENSORS\<close>; within the
  bounds the index expressions of the drawing code address a slot of the buffer.
\<close>

lemma ring_bounds_kept:
  assumes "ring_inv g" and "rings_inv td" and "tempData_sensorCount td \<le> MAX_SENSORS"
    and "0 \<le> k" and "k < DATA_BUFFER_SIZE"
    and "i < nat MAX_SENSORS" and "0 \<le> j" and "j < tempData_dataCount td ! i"
  shows "ring_inv (fst (readSensors P now getTempCByIndex newData0 (g, fs))) \<and>
         ring_inv (loadData P data0 fs g) \<and>
         (\<exists>td'. sensorTask_readings getTempC clock td = Some td' \<and> rings_inv td') \<and>
         rings_inv (clear_data td) \<and>
         slot_back g k < length (dataBuffer g) \<and>
         update_chart_index td i j < length (tempData_data td ! i)"
proof (intro conjI)
  show "ring_inv (fst (readSensors P now getTempCByIndex newData0 (g, fs)))"
    using assms(1) by (simp add: readSensors_fst ring_inv_add)
  show "ring_inv (loadData P data0 fs g)"
    using assms(1) by (rule ring_inv_loadData)
  show "\<exists>td'. sensorTask_readings getTempC clock td = Some td' \<and> rings_inv td'"
    using assms(2,3) by (rule sensorTask_readings_rings_inv)
  show "rings_inv (clear_data td)"
  proof (rule clear_data_rings_inv)
    show "sized td" using assms(2) by (simp add: rings_inv_def)
  qed
  show "slot_back g k < length (dataBuffer g)"
    using assms(1,4,5) by (rule slot_back_less)
  show "update_chart_index td i j < length (tempData_data td ! i)"
    using assms(2,6,7,8) by (rule update_chart_index_less)
qed


section \<open>Chart window and table page: claims C2 and C8\<close>

lemma fold_filter_map:
  "fold (\<lambda>i acc. if P (f i) then body (f i) acc else acc) is acc = fold body (filter P (map f is)) acc"
  by (induction "is" arbitrary: acc) simp_all

lemma chart_loop_visits:
  "chart_loop t0 t1 g body acc = fold body (filter (in_window t0 t1) (visit_order g)) acc"
proof -
  have "chart_loop t0 t1 g body acc =
      fold (\<lambda>i acc. if in_window t0 t1 (dataBuffer g ! slot_back g (int i))
                      then body (dataBuffer g ! slot_back g (int i)) acc else acc)
        [0..<nat (dataBufferCount g)] acc"
    by (simp add: chart_loop_def Let_def in_window_def)
  also have "\<dots> = fold body (filter (in_window t0 t1)
        (map (\<lambda>i. dataBuffer g ! slot_back g (int i)) [0..<nat (dataBufferCount g)])) acc"
    by (rule fold_filter_map)
  finally show ?thesis by (simp add: visit_order_def)
qed

lemma fold_snoc_collect: "fold (\<lambda>d acc. acc @ [d]) xs ys = ys @ xs"
  by (induction xs arbitrary: ys) simp_all

lemma window_visits_filter:
  "window_visits t0 t1 g = filter (in_window t0 t1) (visit_order g)"
  by (simp add: window_visits_def chart_loop_visits fold_snoc_collect)

lemma visit_order_run:
  "visit_order (fst (readSensors_run P inputs (initial_globals\<lparr>sensorCount := n\<rparr>, fs))) =
     take (nat DATA_BUFFER_SIZE) (rev (samples_of n inputs))"
proof -
  let ?init = "initial_globals\<lparr>sensorCount := n\<rparr>"
  have c0: "dataBufferCount ?init = 0" by (simp add: initial_globals_def)
  have "fst (readSensors_run P inputs (?init, fs)) = fold add_to_circular_buffer (samples_of n inputs) ?init"
    using readSensors_run_fst [of P inputs "(?init, fs)"] by simp
  then show ?thesis
    using fold_add_visit_order [OF ring_inv_initial, of "samples_of n inputs" n]
    by (simp add: visit_order_empty [OF c0])
qed

text \<open>
  C2 (as amended). The chart's loop over the ring meets exactly the retained samples
  (the last \<open>min N C\<close> of the \<open>N\<close> appended) whose time stamp lies between the two bounds,
  each once, in the order newest first, that is the reverse of the order of appending.
\<close>

theorem C2_window_newest_first:
  "window_visits t0 t1 (fst (readSensors_run P inputs (initial_globals\<lparr>sensorCount := n\<rparr>, fs))) =
     filter (in_window t0 t1) (take (nat DATA_BUFFER_SIZE) (rev (samples_of n inputs)))"
  by (simp add: window_visits_filter visit_order_run)

theorem C2_window_not_ascending:
  "map timestamp
     (window_visits 1700000000 1700003600
        (fst (readSensors_run utc_platform
                [(1700000000, (\<lambda>i. 21), sample_zero), (1700000060, (\<lambda>i. 22), sample_zero)]
                (initial_globals\<lparr>sensorCount := 1\<rparr>, spiffs_empty)))) = [1700000060, 1700000000] \<and>
   \<not> sorted (map timestamp
     (window_visits 1700000000 1700003600
        (fst (readSensors_run utc_platform
                [(1700000000, (\<lambda>i. 21), sample_zero), (1700000060, (\<lambda>i. 22), sample_zero)]
                (initial_globals\<lparr>sensorCount := 1\<rparr>, spiffs_empty)))))"
proof -
  have "map timestamp
     (window_visits 1700000000 1700003600
        (fst (readSensors_run utc_platform
                [(1700000000, (\<lambda>i. 21), sample_zero), (1700000060, (\<lambda>i. 22), sample_zero)]
                (initial_globals\<lparr>sensorCount := 1\<rparr>, spiffs_empty)))) = [1700000060, 1700000000]"
    unfolding window_visits_filter visit_order_run
    by (simp add: samples_of_def newData_of_def in_window_def DATA_BUFFER_SIZE_def)
  then show ?thesis by simp
qed

lemma concat_map_if:
  "concat (map (\<lambda>x. if P x then [h x] else []) xs) = map h (filter P xs)"
  by (induction xs) simp_all

lemma filter_upt_less: "filter (\<lambda>i. i < m) [0..<n] = [0..<min m n]"
proof (induction n)
  case 0
  then show ?case by simp
next
  case (Suc n)
  show ?case
  proof (cases "n < m")
    case True
    then have "min m (Suc n) = Suc (min m n)" by (simp add: min_def)
    then show ?thesis using Suc True by simp
  next
    case False
    then have "min m (Suc n) = min m n" by (simp add: min_def)
    then show ?thesis using Suc False by simp
  qed
qed

lemma take_drop_upt: "take k (drop a [0..<c]) = map (\<lambda>r. a + r) [0..<min k (c - a)]"
proof -
  have "take k (drop a [0..<c]) = take k [a..<c]" by simp
  also have "\<dots> = [a..<min (a + k) c]"
    by (cases "a + k \<le> c") (simp_all add: min_def)
  also have "\<dots> = map (\<lambda>r. a + r) [0..<min k (c - a)]"
  proof (cases "a \<le> c")
    case True
    have "map (\<lambda>r. a + r) [0..<min k (c - a)] = map (\<lambda>r. r + a) [0..<min k (c - a)]"
      by (simp add: add.commute)
    also have "\<dots> = [a..<min k (c - a) + a]"
      using map_add_upt [of a "min k (c - a)"] by simp
    also have "min k (c - a) + a = min (a + k) c" using True unfolding min_def by auto
    finally show ?thesis by simp
  next
    case False
    then show ?thesis by simp
  qed
  finally show ?thesis .
qed

lemma table_rows_page:
  assumes "0 \<le> tableScrollOffset g"
  shows "table_rows g = take 10 (drop (nat (tableScrollOffset g)) (visit_order g))"
proof -
  define a where "a = nat (tableScrollOffset g)"
  define c where "c = nat (dataBufferCount g)"
  define f where "f = (\<lambda>i. dataBuffer g ! slot_back g (int i))"
  have off: "tableScrollOffset g = int a" using assms by (simp add: a_def)
  have cond: "(int a + int row < dataBufferCount g) = (row < c - a)" for row
    unfolding c_def by linarith
  have "table_rows g =
      concat (map (\<lambda>row. if row < c - a then [f (a + row)] else []) [0..<10])"
    unfolding table_rows_def Let_def off cond f_def of_nat_add ..
  also have "\<dots> = map (\<lambda>row. f (a + row)) (filter (\<lambda>row. row < c - a) [0..<10])"
    by (rule concat_map_if)
  also have "\<dots> = map (\<lambda>row. f (a + row)) [0..<min (c - a) 10]"
    by (simp only: filter_upt_less)
  also have "\<dots> = map f (map (\<lambda>r. a + r) [0..<min 10 (c - a)])"
    by (simp add: min.commute comp_def)
  also have "\<dots> = map f (take 10 (drop a [0..<c]))"
    by (simp only: take_drop_upt)
  also have "\<dots> = take 10 (drop a (map f [0..<c]))"
    by (simp add: take_map drop_map)
  finally show ?thesis
    by (simp add: visit_order_def f_def a_def c_def)
qed

lemma handleTableScroll_offset:
  "0 \<le> maxTableScroll g \<Longrightarrow>
   0 \<le> tableScrollOffset (handleTableScroll direction g) \<and>
   tableScrollOffset (handleTableScroll direction g) \<le> maxTableScroll g"
  by (simp add: handleTableScroll_def Let_def)

lemma handleTableScroll_ring:
  "dataBuffer (handleTableScroll d g) = dataBuffer g"
  "dataBufferIndex (handleTableScroll d g) = dataBufferIndex g"
  "dataBufferCount (handleTableScroll d g) = dataBufferCount g"
  "maxTableScroll (handleTableScroll d g) = maxTableScroll g"
  "sensorCount (handleTableScroll d g) = sensorCount g"
  by (simp_all add: handleTableScroll_def Let_def)

lemma visit_order_cong:
  "dataBuffer g' = dataBuffer g \<Longrightarrow> dataBufferIndex g' = dataBufferIndex g \<Longrightarrow>
   dataBufferCount g' = dataBufferCount g \<Longrightarrow> visit_order g' = visit_order g"
  by (simp add: visit_order_def slot_back_def)

lemma drawTableScreen_fst:
  "fst (drawTableScreen P g) = g\<lparr>maxTableScroll := max 0 (dataBufferCount g - 10)\<rparr>"
  by (simp add: drawTableScreen_def Let_def)

lemma drawTableScreen_snd:
  "snd (drawTableScreen P g) =
     \<lparr>rows = map (\<lambda>d. (strftime_localtime P ''%m/%d %H:%M'' (timestamp d), table_cells P (sensorCount g) d))
                (table_rows g),
      scroll_up = (tableScrollOffset g > 0),
      scroll_down = (tableScrollOffset g < max 0 (dataBufferCount g - 10))\<rparr>"
proof -
  have "table_rows (g\<lparr>maxTableScroll := max 0 (dataBufferCount g - 10)\<rparr>) = table_rows g"
    by (simp add: table_rows_def slot_back_def Let_def cong: if_cong)
  then show ?thesis by (simp add: drawTableScreen_def Let_def)
qed

lemma handleTableScroll_clamp:
  "0 \<le> maxTableScroll g \<Longrightarrow>
   tableScrollOffset (handleTableScroll direction g) =
     max 0 (min (maxTableScroll g) (tableScrollOffset g + direction))"
  by (simp add: handleTableScroll_def Let_def)

text \<open>
  C8. The table shows ten rows: the retained samples newest first, starting
  \<open>tableScrollOffset\<close> samples back from the newest. A scroll request (the touch handler
  passes \<open>-1\<close> or \<open>1\<close>) leaves the offset within \<open>0\<close> and \<open>max 0 (count - 10)\<close>, the
  bound computed by the drawing pass before it. The upper arrow is drawn exactly when the
  offset is positive and the lower one exactly when it is below that bound.
\<close>

theorem C8_table_page:
  "(let g = (fst (readSensors_run P inputs (initial_globals\<lparr>sensorCount := n\<rparr>, fs)))
              \<lparr>tableScrollOffset := offset0, maxTableScroll := max0\<rparr>;
        g1 = fst (drawTableScreen P g);
        g2 = handleTableScroll direction g1;
        screen = snd (drawTableScreen P g2);
        limit = max 0 (dataBufferCount g - 10)
    in dataBufferCount g = min (int (length inputs)) DATA_BUFFER_SIZE \<and>
       tableScrollOffset g2 = max 0 (min limit (offset0 + direction)) \<and>
       0 \<le> tableScrollOffset g2 \<and> tableScrollOffset g2 \<le> limit \<and>
       table_rows g2 =
         take 10 (drop (nat (tableScrollOffset g2))
                    (take (nat DATA_BUFFER_SIZE) (rev (samples_of n inputs)))) \<and>
       rows screen =
         map (\<lambda>d. (strftime_localtime P ''%m/%d %H:%M'' (timestamp d), table_cells P n d)) (table_rows g2) \<and>
       scroll_up screen = (0 < tableScrollOffset g2) \<and>
       scroll_down screen = (tableScrollOffset g2 < limit))"
proof -
  define r where "r = fst (readSensors_run P inputs (initial_globals\<lparr>sensorCount := n\<rparr>, fs))"
  define g where "g = r\<lparr>tableScrollOffset := offset0, maxTableScroll := max0\<rparr>"
  define g1 where "g1 = fst (drawTableScreen P g)"
  define g2 where "g2 = handleTableScroll direction g1"
  define limit where "limit = max 0 (dataBufferCount g - 10)"
  have r_fold: "r = fold add_to_circular_buffer (samples_of n inputs) (initial_globals\<lparr>sensorCount := n\<rparr>)"
    unfolding r_def using readSensors_run_fst [of P inputs "(initial_globals\<lparr>sensorCount := n\<rparr>, fs)"]
    by simp
  have cnt_r: "dataBufferCount r = min (int (length inputs)) DATA_BUFFER_SIZE"
    unfolding r_fold fold_add_count [OF ring_inv_initial]
    by (simp add: initial_globals_def samples_of_def min.commute)
  have sc_r: "sensorCount r = n"
    unfolding r_fold by (simp add: fold_add_sensorCount)
  have vo_r: "visit_order r = take (nat DATA_BUFFER_SIZE) (rev (samples_of n inputs))"
    unfolding r_def by (rule visit_order_run)
  have cnt: "dataBufferCount g = min (int (length inputs)) DATA_BUFFER_SIZE"
    by (simp add: g_def cnt_r)
  have g1: "g1 = g\<lparr>maxTableScroll := limit\<rparr>"
    by (simp add: g1_def drawTableScreen_fst limit_def)
  have max1: "maxTableScroll g1 = limit" "0 \<le> maxTableScroll g1" "tableScrollOffset g1 = offset0"
    by (simp_all add: g1 limit_def g_def)
  have off2: "tableScrollOffset g2 = max 0 (min limit (offset0 + direction))"
    unfolding g2_def handleTableScroll_clamp [OF max1(2)] by (simp add: max1)
  have bounds: "0 \<le> tableScrollOffset g2" "tableScrollOffset g2 \<le> limit"
    using handleTableScroll_offset [OF max1(2), of direction] by (simp_all add: g2_def max1)
  have ring2: "dataBuffer g2 = dataBuffer r" "dataBufferIndex g2 = dataBufferIndex r"
    "dataBufferCount g2 = dataBufferCount r" "sensorCount g2 = n"
    by (simp_all add: g2_def handleTableScroll_ring g1 g_def sc_r)
  have vo2: "visit_order g2 = take (nat DATA_BUFFER_SIZE) (rev (samples_of n inputs))"
    using visit_order_cong [OF ring2(1,2,3)] vo_r by simp
  have rows2: "table_rows g2 =
      take 10 (drop (nat (tableScrollOffset g2)) (take (nat DATA_BUFFER_SIZE) (rev (samples_of n inputs))))"
    using table_rows_page [OF bounds(1)] vo2 by simp
  have lim2: "max 0 (dataBufferCount g2 - 10) = limit"
    by (simp add: ring2 limit_def g_def)
  have screen: "snd (drawTableScreen P g2) =
      \<lparr>rows = map (\<lambda>d. (strftime_localtime P ''%m/%d %H:%M'' (timestamp d), table_cells P n d)) (table_rows g2),
       scroll_up = (tableScrollOffset g2 > 0),
       scroll_down = (tableScrollOffset g2 < limit)\<rparr>"
    using lim2 by (simp add: drawTableScreen_snd ring2)
  show ?thesis
    unfolding Let_def
    unfolding r_def [symmetric] g_def [symmetric] g1_def [symmetric] g2_def [symmetric] limit_def [symmetric]
    using cnt off2 bounds rows2 by (simp add: screen)
qed

section \<open>Disconnected readings: claim C6\<close>

lemma minmax_channels:
  "fold (\<lambda>s (mn, mx).
           if temperatures d ! s \<noteq> DEVICE_DISCONNECTED_C
           then (if temperatures d ! s < mn then temperatures d ! s else mn,
                 if temperatures d ! s > mx then temperatures d ! s else mx)
           else (mn, mx)) ss (mn0, mx0) =
   (fold min (filter (\<lambda>t. t \<noteq> DEVICE_DISCONNECTED_C) (map (\<lambda>s. temperatures d ! s) ss)) mn0,
    fold max (filter (\<lambda>t. t \<noteq> DEVICE_DISCONNECTED_C) (map (\<lambda>s. temperatures d ! s) ss)) mx0)"
proof (induction ss arbitrary: mn0 mx0)
  case Nil
  then show ?case by simp
next
  case (Cons s ss)
  have mn: "(if temperatures d ! s < mn0 then temperatures d ! s else mn0) = min (temperatures d ! s) mn0"
    by (simp add: min_def)
  have mx: "(if temperatures d ! s > mx0 then temperatures d ! s else mx0) = max (temperatures d ! s) mx0"
    by (simp add: max_def)
  show ?case
    by (cases "temperatures d ! s = DEVICE_DISCONNECTED_C") (simp_all add: Cons.IH mn mx)
qed

lemma minmax_sample_eq:
  "minmax_sample n d (mn, mx, dp) =
     (fold min (connected_readings n [d]) mn, fold max (connected_readings n [d]) mx, dp + 1)"
  by (simp add: minmax_sample_def minmax_channels connected_readings_def)

lemma connected_readings_Cons:
  "connected_readings n (d # ds) = connected_readings n [d] @ connected_readings n ds"
  by (simp add: connected_readings_def)

lemma minmax_samples:
  "fold (minmax_sample n) ds (mn, mx, dp) =
     (fold min (connected_readings n ds) mn, fold max (connected_readings n ds) mx, dp + int (length ds))"
proof (induction ds arbitrary: mn mx dp)
  case Nil
  then show ?case by (simp add: connected_readings_def)
next
  case (Cons d ds)
  show ?case
    by (simp add: minmax_sample_eq Cons.IH connected_readings_Cons [of n d ds])
qed

lemma chart_minmax_connected:
  "chart_minmax t0 t1 g =
     (fold min (connected_readings (sensorCount g) (window_visits t0 t1 g)) 1000,
      fold max (connected_readings (sensorCount g) (window_visits t0 t1 g)) (- 1000),
      int (length (window_visits t0 t1 g)))"
  by (simp add: chart_minmax_def chart_loop_visits window_visits_filter minmax_samples)

lemma connected_readings_marker_free:
  "DEVICE_DISCONNECTED_C \<notin> set (connected_readings n ds)"
  by (simp add: connected_readings_def)

lemma table_cells_marker:
  assumes "temperatures d ! i = DEVICE_DISCONNECTED_C" "i < nat (min n 6)"
  shows "table_cells P n d ! i = ''---''"
  using assms by (simp add: table_cells_def)

text \<open>
  C6. A reading that equals the disconnected marker takes no part in the chart's
  minimum and maximum: they are the minimum and maximum of the connected readings of the
  samples in the window (starting from the initial \<open>1000\<close> and \<open>-1000\<close>), and so is the
  axis range computed from them. In the table such a reading is drawn as \<open>---\<close>.
\<close>

theorem C6_disconnected_not_numeric:
  assumes "temperatures d ! i = DEVICE_DISCONNECTED_C" and "i < nat (min n 6)"
  shows "chart_minmax t0 t1 g =
           (fold min (connected_readings (sensorCount g) (window_visits t0 t1 g)) 1000,
            fold max (connected_readings (sensorCount g) (window_visits t0 t1 g)) (- 1000),
            int (length (window_visits t0 t1 g))) \<and>
         DEVICE_DISCONNECTED_C \<notin> set (connected_readings (sensorCount g) (window_visits t0 t1 g)) \<and>
         table_cells P n d ! i = ''---''"
  using chart_minmax_connected connected_readings_marker_free table_cells_marker [OF assms]
  by simp

lemma samples_of_gap:
  "samples_of 2 sample_gap =
     [\<lparr>timestamp = 1700000000, temperatures = [21.5, - 127, 0, 0, 0, 0, 0, 0, 0, 0]\<rparr>,
      \<lparr>timestamp = 1700000060, temperatures = [- 127, 19, 0, 0, 0, 0, 0, 0, 0, 0]\<rparr>]"
  by (simp add: sample_gap_def samples_of_def newData_of_def sample_zero_def upt_conv_Cons
      numeral_eq_Suc DEVICE_DISCONNECTED_C_def)

lemma upt_0_2: "[0..<2] = [0, Suc 0]"
  by (simp add: upt_conv_Cons numeral_2_eq_2)

theorem C6_disconnected_not_numeric_witness:
  "chart_minmax 1700000000 1700003600
     (fst (readSensors_run utc_platform sample_gap (initial_globals\<lparr>sensorCount := 2\<rparr>, spiffs_empty))) =
     (19, 21.5, 2) \<and>
   table_cells utc_platform 2 \<lparr>timestamp = 1700000060, temperatures = [- 127, 19, 0, 0, 0, 0, 0, 0, 0, 0]\<rparr> =
     [''---'', ''19.0'']"
proof -
  let ?g = "fst (readSensors_run utc_platform sample_gap (initial_globals\<lparr>sensorCount := 2\<rparr>, spiffs_empty))"
  let ?d = "\<lparr>timestamp = 1700000060, temperatures = [- 127, 19, 0, 0, 0, 0, 0, 0, 0, 0]\<rparr>"
  have h1: "temperatures ?d ! 0 = DEVICE_DISCONNECTED_C"
    by (simp add: DEVICE_DISCONNECTED_C_def)
  have h2: "(0::nat) < nat (min 2 6)" by simp
  have sc: "sensorCount ?g = 2"
    using readSensors_run_fst [of utc_platform sample_gap "(initial_globals\<lparr>sensorCount := 2\<rparr>, spiffs_empty)"]
    by (simp add: fold_add_sensorCount)
  have w: "window_visits 1700000000 1700003600 ?g =
      [\<lparr>timestamp = 1700000060, temperatures = [- 127, 19, 0, 0, 0, 0, 0, 0, 0, 0]\<rparr>,
       \<lparr>timestamp = 1700000000, temperatures = [21.5, - 127, 0, 0, 0, 0, 0, 0, 0, 0]\<rparr>]"
    unfolding window_visits_filter visit_order_run samples_of_gap
    by (simp add: in_window_def DATA_BUFFER_SIZE_def)
  have cs: "connected_readings 2
      [\<lparr>timestamp = 1700000060, temperatures = [- 127, 19, 0, 0, 0, 0, 0, 0, 0, 0]\<rparr>,
       \<lparr>timestamp = 1700000000, temperatures = [21.5, - 127, 0, 0, 0, 0, 0, 0, 0, 0]\<rparr>] = [19, 21.5]"
    by (simp add: connected_readings_def DEVICE_DISCONNECTED_C_def upt_0_2)
  have "String_of_float 19 1 = ''19.0''"
    by code_simp
  then have pf: "String_of_float 19 (Suc 0) = ''19.0''"
    by simp
  have cells: "table_cells utc_platform 2 ?d = [''---'', ''19.0'']"
    by (simp add: table_cells_def upt_0_2 DEVICE_DISCONNECTED_C_def utc_platform_def pf)
  show ?thesis
    using C6_disconnected_not_numeric [OF h1 h2, where g = ?g and ?t0.0 = 1700000000
        and ?t1.0 = 1700003600 and P = utc_platform]
    unfolding sc w cs cells by simp
qed

section \<open>The sensor task and the sampling interval: claim C7\<close>




















section \<open>Saving and loading settings: claim C5\<close>




















end
